theory Spec2Isabelle
  imports Main "HOL-Library.AList" "HOL-Library.Sublist"
begin

section \<open>JavaScript values and string primitives\<close>

text \<open>
  A parsed JSON field is a dynamically typed value. Numbers are modelled as integers
  (years, counts and timestamps are integral); \<open>NaN\<close> is the \<open>None\<close> of
  \<open>int option\<close>. Fields holding arrays or objects are modelled where the code reads
  them (\<open>authors\<close>, \<open>hit\<close>), not as values of this type.
\<close>

datatype jsval = JUndefined | JNull | JBool bool | JNum int | JStr string

datatype exn = TypeError

fun truthy :: "jsval \<Rightarrow> bool" where
  "truthy JUndefined = False"
| "truthy JNull = False"
| "truthy (JBool b) = b"
| "truthy (JNum n) = (n \<noteq> 0)"
| "truthy (JStr s) = (s \<noteq> [])"

definition is_digit :: "char \<Rightarrow> bool" where
  "is_digit c = (c \<in> set ''0123456789'')"

definition digit_val :: "char \<Rightarrow> nat" where
  "digit_val c = of_char c - 48"

definition dec_value :: "string \<Rightarrow> nat" where
  "dec_value s = foldl (\<lambda>a c. 10 * a + digit_val c) 0 s"

text \<open>
  \<open>Number(s)\<close> on a string: the empty string is 0 and an optionally signed run of
  decimal digits is its value. JavaScript also reads surrounding blanks, fractions,
  exponents, radix prefixes and \<open>Infinity\<close>; such strings are outside this model and
  are \<open>NaN\<close> here.
\<close>

definition str_to_number :: "string \<Rightarrow> int option" where
  "str_to_number s =
     (case s of
        [] \<Rightarrow> Some 0
      | c # r \<Rightarrow>
          if list_all is_digit s then Some (int (dec_value s))
          else if c = CHR ''-'' \<and> r \<noteq> [] \<and> list_all is_digit r then Some (- int (dec_value r))
          else if c = CHR ''+'' \<and> r \<noteq> [] \<and> list_all is_digit r then Some (int (dec_value r))
          else None)"

fun to_number :: "jsval \<Rightarrow> int option" where
  "to_number JUndefined = None"
| "to_number JNull = Some 0"
| "to_number (JBool b) = Some (if b then 1 else 0)"
| "to_number (JNum n) = Some n"
| "to_number (JStr s) = str_to_number s"

definition startsWith :: "string \<Rightarrow> string \<Rightarrow> bool" where
  "startsWith s p = prefix p s"

fun indexOf_from :: "string \<Rightarrow> string \<Rightarrow> nat \<Rightarrow> int" where
  "indexOf_from [] pat i = (if pat = [] then int i else - 1)"
| "indexOf_from (c # cs) pat i =
     (if prefix pat (c # cs) then int i else indexOf_from cs pat (Suc i))"

definition indexOf :: "string \<Rightarrow> string \<Rightarrow> int" where
  "indexOf s pat = indexOf_from s pat 0"

definition lastIndexOf :: "string \<Rightarrow> string \<Rightarrow> int" where
  "lastIndexOf s pat =
     (let k = indexOf_from (rev s) (rev pat) 0
      in if k < 0 then - 1 else int (length s) - int (length pat) - k)"

text \<open>\<open>s.substring(a, b)\<close>: both indices are clamped to the string and swapped when out of order.\<close>

definition substring :: "string \<Rightarrow> int \<Rightarrow> int \<Rightarrow> string" where
  "substring s a b =
     (let n = int (length s);
          a' = max 0 (min a n);
          b' = max 0 (min b n);
          lo = min a' b';
          hi = max a' b'
      in take (nat (hi - lo)) (drop (nat lo) s))"

section \<open>Search responses\<close>

text \<open>
  \<open>info.authors.author\<close> is an array of author objects, a single author object, or
  absent; only the display text of each author is kept.
\<close>

datatype author_field = AuthorArray "string list" | AuthorObject string | AuthorMissing

record info =
  i_type :: jsval
  i_authors :: "author_field option"
  i_year :: jsval
  i_url :: "string option"
  i_number :: jsval
  i_venue :: jsval

text \<open>
  \<open>resp.hit\<close> is an array; an element without an \<open>info\<close> object is \<open>None\<close>, and so
  is an index past the end of the array (\<open>undefined\<close> in both cases).
\<close>

record resp =
  r_total :: jsval
  r_sent :: jsval
  r_hit :: "info option list"

definition hit_info :: "resp \<Rightarrow> nat \<Rightarrow> info option" where
  "hit_info r h = (if h < length (r_hit r) then r_hit r ! h else None)"

text \<open>The number of iterations of \<open>for (h = 0; h < resp["@sent"]; h++)\<close>.\<close>

definition sent_bound :: "jsval \<Rightarrow> nat" where
  "sent_bound v = (case to_number v of None \<Rightarrow> 0 | Some n \<Rightarrow> nat n)"

definition scanned :: "resp \<Rightarrow> info option list" where
  "scanned r = map (hit_info r) [0..<sent_bound (r_sent r)]"

section \<open>APIService: findBestMatch\<close>

definition venue_path :: "string \<Rightarrow> string" where
  "venue_path url = substring url (indexOf url ''/rec/'' + 4) (lastIndexOf url ''/'')"

definition first_author :: "author_field option \<Rightarrow> exn + string" where
  "first_author a =
     (case a of
        None \<Rightarrow> Inl TypeError
      | Some (AuthorArray []) \<Rightarrow> Inl TypeError
      | Some (AuthorArray (x # _)) \<Rightarrow> Inr x
      | Some (AuthorObject x) \<Rightarrow> Inr x
      | Some AuthorMissing \<Rightarrow> Inl TypeError)"

text \<open>\<open>Math.abs(Number(year) - year_fuzzy) <= 1\<close>, false when either side is \<open>NaN\<close>.\<close>

definition in_window :: "int option \<Rightarrow> jsval \<Rightarrow> bool" where
  "in_window t y =
     (case t of None \<Rightarrow> False
      | Some a \<Rightarrow> (case to_number y of None \<Rightarrow> False | Some b \<Rightarrow> \<bar>a - b\<bar> \<le> 1))"

text \<open>\<open>v === Number(year) + d\<close>: strict equality with a number, never true for \<open>NaN\<close>.\<close>

definition strict_eq_num :: "jsval \<Rightarrow> int option \<Rightarrow> int \<Rightarrow> bool" where
  "strict_eq_num v t d = (case t of None \<Rightarrow> False | Some a \<Rightarrow> v = JNum (a + d))"

text \<open>
  The loop of \<open>findBestMatch\<close> over \<open>resp.hit[0]\<close>, ..., \<open>resp.hit[sent - 1]\<close>, with
  the loop variables \<open>dblp_url\<close> and \<open>year_last_check\<close> as arguments. Reading a
  property of \<open>undefined\<close> raises \<open>TypeError\<close>.
\<close>

fun scan :: "int option \<Rightarrow> info option list \<Rightarrow> string \<Rightarrow> jsval \<Rightarrow> exn + string" where
  "scan t [] dblp_url year_last_check = Inr dblp_url"
| "scan t (None # hs) dblp_url year_last_check = Inl TypeError"
| "scan t (Some i # hs) dblp_url year_last_check =
     (if i_type i = JStr ''Informal Publications'' then scan t hs dblp_url year_last_check
      else
        (case first_author (i_authors i) of
           Inl e \<Rightarrow> Inl e
         | Inr author_1st \<Rightarrow>
             if in_window t (i_year i) \<and> i_year i \<noteq> year_last_check then
               (case i_url i of
                  None \<Rightarrow> Inl TypeError
                | Some url \<Rightarrow>
                    if strict_eq_num (i_year i) t 1 then scan t hs (venue_path url) (i_year i)
                    else if strict_eq_num (i_year i) t 0 then Inr (venue_path url)
                    else if dblp_url = [] then scan t hs (venue_path url) (i_year i)
                    else scan t hs dblp_url (i_year i))
             else scan t hs dblp_url year_last_check))"

definition findBestMatch :: "resp \<Rightarrow> string \<Rightarrow> string \<Rightarrow> exn + string" where
  "findBestMatch r author year = scan (str_to_number year) (scanned r) [] (JNum 0)"

section \<open>CCFData: the rank table\<close>

text \<open>
  \<open>toUpperCase\<close> on the ASCII letters; every other character is kept (the table's keys
  and the queries are ASCII).
\<close>

definition upper_char :: "char \<Rightarrow> char" where
  "upper_char c =
     (case map_of (zip ''abcdefghijklmnopqrstuvwxyz'' ''ABCDEFGHIJKLMNOPQRSTUVWXYZ'') c of
        None \<Rightarrow> c
      | Some u \<Rightarrow> u)"

definition toUpperCase :: "string \<Rightarrow> string" where
  "toUpperCase s = map upper_char s"

definition lower_char :: "char \<Rightarrow> char" where
  "lower_char c =
     (case map_of (zip ''ABCDEFGHIJKLMNOPQRSTUVWXYZ'' ''abcdefghijklmnopqrstuvwxyz'') c of
        None \<Rightarrow> c
      | Some l \<Rightarrow> l)"

definition toLowerCase :: "string \<Rightarrow> string" where
  "toLowerCase s = map lower_char s"

record entry =
  e_rank :: string
  e_abbr :: string
  e_fullName :: string
  e_url :: string
  e_type :: string

text \<open>
  A JavaScript \<open>Map\<close> iterates in insertion order, and \<open>set\<close> on a key that is
  present replaces the value in place: an association list with \<open>AList.update\<close>.
\<close>

type_synonym table = "(string \<times> entry) list"

record ccfdata =
  conferences :: table
  journals :: table

definition addEntry :: "string \<Rightarrow> string \<Rightarrow> string \<Rightarrow> string \<Rightarrow> string \<Rightarrow> ccfdata \<Rightarrow> ccfdata" where
  "addEntry rank abbr fullName url type d =
     (let entry = \<lparr>e_rank = rank, e_abbr = toUpperCase abbr, e_fullName = fullName,
                    e_url = url, e_type = type\<rparr>
      in if type = ''conference''
         then d\<lparr>conferences :=
                  AList.update url entry (AList.update (toUpperCase abbr) entry (conferences d))\<rparr>
         else d\<lparr>journals :=
                  AList.update url entry (AList.update (toUpperCase abbr) entry (journals d))\<rparr>)"

text \<open>The loop \<open>for (const [key, value] of this.conferences)\<close> of \<open>getRankByAbbr\<close>.\<close>

fun first_prefix :: "string \<Rightarrow> table \<Rightarrow> entry option" where
  "first_prefix a [] = None"
| "first_prefix a ((key, val) # m) =
     (if startsWith key a \<and> key \<noteq> a then Some val else first_prefix a m)"

definition getRankByAbbr :: "ccfdata \<Rightarrow> string \<Rightarrow> entry option" where
  "getRankByAbbr d abbr =
     (if abbr = [] then None
      else
        (case map_of (conferences d) (toUpperCase abbr) of
           Some entry \<Rightarrow> Some entry
         | None \<Rightarrow>
             (case map_of (journals d) (toUpperCase abbr) of
                Some entry \<Rightarrow> Some entry
              | None \<Rightarrow> first_prefix (toUpperCase abbr) (conferences d))))"

text \<open>
  The whole of a string matches \<open>[0-9]{1,4}(-[0-9]{1,4})?\<close>: one to four digits, then
  nothing or a dash and one to four digits.
\<close>

definition year_suffix :: "string \<Rightarrow> bool" where
  "year_suffix s =
     (let d1 = takeWhile is_digit s; r = dropWhile is_digit s
      in 1 \<le> length d1 \<and> length d1 \<le> 4 \<and>
         (case r of
            [] \<Rightarrow> True
          | c # d2 \<Rightarrow> c = CHR ''-'' \<and> list_all is_digit d2 \<and> 1 \<le> length d2 \<and> length d2 \<le> 4))"

text \<open>
  \<open>url.replace(/[0-9]{1,4}(-[0-9]{1,4})?$/, '')\<close>: the pattern is anchored at the end,
  so the leftmost match starts at the first position whose remainder matches as a whole,
  and the replacement cuts the string there. Without a match the string is unchanged.
\<close>

fun cleanUrl :: "string \<Rightarrow> string" where
  "cleanUrl [] = []"
| "cleanUrl (c # cs) = (if year_suffix (c # cs) then [] else c # cleanUrl cs)"

definition getRankByUrl :: "ccfdata \<Rightarrow> string \<Rightarrow> entry option" where
  "getRankByUrl d url =
     (if url = [] then None
      else
        (case map_of (conferences d) (cleanUrl url) of
           Some entry \<Rightarrow> Some entry
         | None \<Rightarrow> map_of (journals d) (cleanUrl url)))"

text \<open>The constructor: two empty maps, then \<open>_initData\<close>.\<close>

definition initData :: "ccfdata \<Rightarrow> ccfdata" where
  "initData d =
     addEntry ''A'' ''TOS'' ''ACM Transactions on Storage'' ''/journals/tos/tos'' ''journal''
       (addEntry ''A'' ''TOCS'' ''ACM Transactions on Computer Systems'' ''/journals/tocs/tocs'' ''journal''
         (addEntry ''A'' ''FAST'' ''Conference on File and Storage Technologies'' ''/conf/fast/fast'' ''conference''
           (addEntry ''A'' ''PPoPP''
              ''ACM SIGPLAN Symposium on Principles & Practice of Parallel Programming''
              ''/conf/ppopp/ppopp'' ''conference'' d)))"

definition ccfData :: ccfdata where
  "ccfData = initData \<lparr>conferences = [], journals = []\<rparr>"

section \<open>APIService: the umbrella journal and the result dispatch\<close>

text \<open>
  \<open>PACM_PL_CONFERENCE_MAP\<close> is an object literal, so \<open>PACM_PL_CONFERENCE_MAP[number]\<close>
  finds the literal's own keys and, failing that, the members of \<open>Object.prototype\<close>,
  which are functions or objects and hence truthy.
\<close>

definition PACM_PL_CONFERENCE_MAP :: "(string \<times> string) list" where
  "PACM_PL_CONFERENCE_MAP =
     [(''oopsla'', ''/conf/oopsla/oopsla''),
      (''oopsla1'', ''/conf/oopsla/oopsla''),
      (''oopsla2'', ''/conf/oopsla/oopsla''),
      (''popl'', ''/conf/popl/popl''),
      (''pldi'', ''/conf/pldi/pldi''),
      (''icfp'', ''/conf/icfp/icfp'')]"

definition object_prototype_keys :: "string list" where
  "object_prototype_keys =
     [''constructor'', ''__defineGetter__'', ''__defineSetter__'', ''hasOwnProperty'',
      ''__lookupGetter__'', ''__lookupSetter__'', ''isPrototypeOf'', ''propertyIsEnumerable'',
      ''toString'', ''valueOf'', ''__proto__'', ''toLocaleString'']"

text \<open>What a property read of the alias object yields: a string of its own, or an inherited member.\<close>

datatype propval = PStr string | PInherited string

definition pacm_lookup :: "string \<Rightarrow> propval option" where
  "pacm_lookup k =
     (case map_of PACM_PL_CONFERENCE_MAP k of
        Some p \<Rightarrow> Some (PStr p)
      | None \<Rightarrow> if k \<in> set object_prototype_keys then Some (PInherited k) else None)"

definition digit_char :: "nat \<Rightarrow> char" where
  "digit_char n = ''0123456789'' ! (n mod 10)"

fun digits_of :: "nat \<Rightarrow> string" where
  "digits_of n = (if n < 10 then [digit_char n] else digits_of (n div 10) @ [digit_char n])"

text \<open>\<open>v.toString()\<close> for the values that have one.\<close>

fun js_toString :: "jsval \<Rightarrow> exn + string" where
  "js_toString JUndefined = Inl TypeError"
| "js_toString JNull = Inl TypeError"
| "js_toString (JBool b) = Inr (if b then ''true'' else ''false'')"
| "js_toString (JNum n) = Inr (if n < 0 then CHR ''-'' # digits_of (nat (- n)) else digits_of (nat n))"
| "js_toString (JStr s) = Inr s"

text \<open>\<open>resp.hit[i]?.info?.number\<close> and \<open>resp.hit[i]?.info?.venue\<close>.\<close>

definition opt_number :: "info option \<Rightarrow> jsval" where
  "opt_number h = (case h of None \<Rightarrow> JUndefined | Some i \<Rightarrow> i_number i)"

definition opt_venue :: "info option \<Rightarrow> jsval" where
  "opt_venue h = (case h of None \<Rightarrow> JUndefined | Some i \<Rightarrow> i_venue i)"

text \<open>The loop of \<open>processPacmPlJournal\<close>: the first truthy \<open>number\<close>, lower-cased, else \<open>""\<close>.\<close>

fun first_number :: "info option list \<Rightarrow> string" where
  "first_number [] = []"
| "first_number (h # hs) =
     (if truthy (opt_number h) then
        (case js_toString (opt_number h) of Inl _ \<Rightarrow> [] | Inr s \<Rightarrow> toLowerCase s)
      else first_number hs)"

definition processPacmPlJournal :: "resp \<Rightarrow> propval" where
  "processPacmPlJournal r =
     (case pacm_lookup (first_number (scanned r)) of
        Some v \<Rightarrow> v
      | None \<Rightarrow> PStr ''/journals/pacmpl/pacmpl'')"

text \<open>\<open>a || b\<close> on values.\<close>

definition js_or :: "jsval \<Rightarrow> jsval \<Rightarrow> jsval" where
  "js_or a b = (if truthy a then a else b)"

datatype branch = AbbrBranch | PacmBranch | UrlBranch | NoBranch

text \<open>
  The \<open>if\<close> / \<open>else if\<close> chain that \<open>fetchFromCache\<close> and the completion callback of
  \<open>fetchFromDblpApi\<close> both run on \<open>dblp_url\<close>, the flag and the response. The result
  names the branch taken and what is handed to \<open>site.appendRankInfo\<close>, if anything.
  \<open>getRankByAbbr\<close> and \<open>getRankByUrl\<close> call string methods on their argument, which
  raises \<open>TypeError\<close> for a truthy value that is not a string.
\<close>

definition dispatch :: "ccfdata \<Rightarrow> jsval \<Rightarrow> jsval \<Rightarrow> resp \<Rightarrow> exn + branch \<times> entry option" where
  "dispatch d dblp_url flag r =
     (if dblp_url = JUndefined \<and> flag \<noteq> JBool False then
        (let dblp_abbr = js_or (opt_number (hit_info r 0)) (opt_venue (hit_info r 0))
         in if truthy dblp_abbr \<and> to_number dblp_abbr = None then
              (case dblp_abbr of
                 JStr a \<Rightarrow> Inr (AbbrBranch, getRankByAbbr d a)
               | _ \<Rightarrow> Inl TypeError)
            else Inr (AbbrBranch, None))
      else if dblp_url = JStr ''/journals/pacmpl/pacmpl'' then
        (case processPacmPlJournal r of
           PStr conferenceUrl \<Rightarrow> Inr (PacmBranch, getRankByUrl d conferenceUrl)
         | PInherited _ \<Rightarrow> Inl TypeError)
      else if truthy dblp_url then
        (case dblp_url of
           JStr u \<Rightarrow> Inr (UrlBranch, getRankByUrl d u)
         | _ \<Rightarrow> Inl TypeError)
      else Inr (NoBranch, None))"

record cached =
  c_dblp_url :: jsval
  c_resp :: resp
  c_flag :: jsval

definition fetchFromCache :: "ccfdata \<Rightarrow> cached \<Rightarrow> exn + branch \<times> entry option" where
  "fetchFromCache d c = dispatch d (c_dblp_url c) (c_flag c) (c_resp c)"

text \<open>
  The completion callback of \<open>fetchFromDblpApi\<close> on a parsed response: it returns at
  once for no hits; an exception before \<open>apiCache.setItem\<close> is caught and nothing is
  cached; otherwise the value handed to \<open>setItem\<close> and the result of the dispatch
  (whose exception is caught as well).
\<close>

datatype outcome =
  NoHits
| Caught exn
| Cached cached "exn + branch \<times> entry option"

definition single_hit_path :: "resp \<Rightarrow> exn + string" where
  "single_hit_path r =
     (case hit_info r 0 of
        None \<Rightarrow> Inl TypeError
      | Some i \<Rightarrow> (case i_url i of None \<Rightarrow> Inl TypeError | Some url \<Rightarrow> Inr (venue_path url)))"

text \<open>\<open>ccfData.getRankByUrl(dblp_url)?.url || dblp_url\<close>.\<close>

definition normalize_url :: "ccfdata \<Rightarrow> string \<Rightarrow> string" where
  "normalize_url d dblp_url =
     (case getRankByUrl d dblp_url of
        None \<Rightarrow> dblp_url
      | Some e \<Rightarrow> if e_url e \<noteq> [] then e_url e else dblp_url)"

definition fetchFromDblpApi :: "ccfdata \<Rightarrow> resp \<Rightarrow> string \<Rightarrow> string \<Rightarrow> outcome" where
  "fetchFromDblpApi d r author year =
     (if r_total r = JNum 0 then NoHits
      else
        (case (if r_total r = JNum 1 then single_hit_path r else findBestMatch r author year) of
           Inl e \<Rightarrow> Caught e
         | Inr found \<Rightarrow>
             (let dblp_url = normalize_url d found;
                  resp_flag = True
              in Cached \<lparr>c_dblp_url = JStr dblp_url, c_resp = r, c_flag = JBool resp_flag\<rparr>
                   (dispatch d (JStr dblp_url) (JBool resp_flag) r))))"

text \<open>The branch of the dispatch that ran, if it did not raise.\<close>

definition branch_taken :: "exn + branch \<times> entry option \<Rightarrow> branch option" where
  "branch_taken res = (case res of Inl _ \<Rightarrow> None | Inr (b, a) \<Rightarrow> Some b)"

section \<open>CacheService\<close>

text \<open>
  \<open>localStorage\<close> holds one string per key and numbers its keys \<open>0\<close>, ...,
  \<open>length - 1\<close>; removing a key renumbers the keys after it. A stored string is
  represented by what the cache can see of it: the empty string, a string that
  \<open>JSON.parse\<close> rejects, a JSON text whose value is falsy or has no \<open>expires\<close> field,
  or an item with its \<open>value\<close>, \<open>expires\<close> and \<open>timestamp\<close> (numbers). Values are
  JSON data, which \<open>JSON.stringify\<close> and \<open>JSON.parse\<close> hand back unchanged.
\<close>

datatype 'v cell = Blank | Garbage | Plain | Item 'v int int

type_synonym 'v store = "(string \<times> 'v cell) list"

definition ls_getItem :: "'v store \<Rightarrow> string \<Rightarrow> 'v cell option" where
  "ls_getItem s k = map_of s k"

definition ls_setItem :: "string \<Rightarrow> 'v cell \<Rightarrow> 'v store \<Rightarrow> 'v store" where
  "ls_setItem k x s = AList.update k x s"

definition ls_removeItem :: "string \<Rightarrow> 'v store \<Rightarrow> 'v store" where
  "ls_removeItem k s = AList.delete k s"

lemma ls_removeItem_shrinks:
  "i < length s \<Longrightarrow> length (ls_removeItem k s) - Suc i < length s - i"
proof -
  assume "i < length s"
  moreover have "length (ls_removeItem k s) \<le> length s"
    by (simp add: ls_removeItem_def AList.delete_eq)
  ultimately show ?thesis by arith
qed

record svc =
  expiresAfter :: int
  keyPrefix :: string
  maxCacheSize :: nat

text \<open>The constructor, and the exported singleton.\<close>

definition apiCache :: svc where
  "apiCache = \<lparr>expiresAfter = 86400000, keyPrefix = ''CCFrank4dblp_'', maxCacheSize = 1000\<rparr>"

definition getPrefixedKey :: "svc \<Rightarrow> string \<Rightarrow> string" where
  "getPrefixedKey c key = keyPrefix c @ key"

text \<open>\<open>key && key.startsWith(this.keyPrefix)\<close>.\<close>

definition own_key :: "svc \<Rightarrow> string \<Rightarrow> bool" where
  "own_key c key = (key \<noteq> [] \<and> startsWith key (keyPrefix c))"

text \<open>
  The first loop of \<open>_cleanup\<close>, by index over the storage as it is at each step: an
  expired or unparsable entry is removed at once, an unexpired one is recorded with its
  expiry. \<open>now\<close> is the clock reading taken at the start of \<open>_cleanup\<close>.
\<close>

function cleanup_scan ::
  "svc \<Rightarrow> int \<Rightarrow> nat \<Rightarrow> 'v store \<Rightarrow> (string \<times> int) list \<Rightarrow> 'v store \<times> (string \<times> int) list" where
  "cleanup_scan c now i s keys =
     (if i < length s then
        (let key = fst (s ! i) in
         if own_key c key then
           (case ls_getItem s key of
              None \<Rightarrow> cleanup_scan c now (Suc i) s keys
            | Some Blank \<Rightarrow> cleanup_scan c now (Suc i) s keys
            | Some Garbage \<Rightarrow> cleanup_scan c now (Suc i) (ls_removeItem key s) keys
            | Some Plain \<Rightarrow> cleanup_scan c now (Suc i) s keys
            | Some (Item v expires ts) \<Rightarrow>
                if expires \<noteq> 0 then
                  (if now > expires then cleanup_scan c now (Suc i) (ls_removeItem key s) keys
                   else cleanup_scan c now (Suc i) s (keys @ [(key, expires)]))
                else cleanup_scan c now (Suc i) s keys)
         else cleanup_scan c now (Suc i) s keys)
      else (s, keys))"
  by pat_completeness auto
termination
  by (relation "measure (\<lambda>(c, now, i, s, keys). length s - i)")
    (auto simp: ls_removeItem_shrinks)

text \<open>
  The second half of \<open>_cleanup\<close>: beyond \<open>maxCacheSize\<close> recorded entries, those with
  the soonest expiry are removed (\<open>Array.prototype.sort\<close> is stable).
\<close>

definition cleanup :: "svc \<Rightarrow> int \<Rightarrow> 'v store \<Rightarrow> 'v store" where
  "cleanup c now s =
     (case cleanup_scan c now 0 s [] of
        (s', keys) \<Rightarrow>
          if length keys > maxCacheSize c then
            (let toDelete = take (length keys - maxCacheSize c) (sort_key snd keys)
             in fold (\<lambda>(key, expires). ls_removeItem key) toDelete s')
          else s')"

definition clearAll :: "svc \<Rightarrow> 'v store \<Rightarrow> 'v store" where
  "clearAll c s = fold ls_removeItem (filter (own_key c) (map fst s)) s"

text \<open>
  What the clock and the storage do during one call of \<open>setItem\<close>: the clock readings of
  \<open>_cleanup\<close>, of the first write and of the retry, and whether each
  \<open>localStorage.setItem\<close> stores the string, signals an exceeded quota, or fails
  otherwise.
\<close>

datatype write_result = Stored | QuotaExceeded | OtherFailure

record env =
  t_cleanup :: int
  t_write :: int
  t_retry :: int
  w_first :: write_result
  w_retry :: write_result

text \<open>
  \<open>setItem\<close> returns a boolean from every path; each exception is caught inside it.
\<close>

definition setItem :: "svc \<Rightarrow> env \<Rightarrow> string \<Rightarrow> 'v \<Rightarrow> 'v store \<Rightarrow> bool \<times> 'v store" where
  "setItem c e key val s =
     (let s1 = cleanup c (t_cleanup e) s;
          prefixedKey = getPrefixedKey c key
      in case w_first e of
           Stored \<Rightarrow>
             (True, ls_setItem prefixedKey (Item val (t_write e + expiresAfter c) (t_write e)) s1)
         | QuotaExceeded \<Rightarrow>
             (let s2 = clearAll c s1
              in case w_retry e of
                   Stored \<Rightarrow>
                     (True,
                      ls_setItem prefixedKey (Item val (t_retry e + expiresAfter c) (t_retry e)) s2)
                 | _ \<Rightarrow> (False, s2))
         | OtherFailure \<Rightarrow> (False, s1))"

text \<open>\<open>getItem\<close>: the value or \<open>null\<close>, and the storage afterwards.\<close>

definition getItem :: "svc \<Rightarrow> int \<Rightarrow> string \<Rightarrow> 'v store \<Rightarrow> 'v option \<times> 'v store" where
  "getItem c now key s =
     (let prefixedKey = getPrefixedKey c key
      in case ls_getItem s prefixedKey of
           None \<Rightarrow> (None, s)
         | Some Blank \<Rightarrow> (None, s)
         | Some Garbage \<Rightarrow> (None, ls_removeItem prefixedKey s)
         | Some Plain \<Rightarrow> (None, s)
         | Some (Item v expires ts) \<Rightarrow>
             if expires = 0 then (None, s)
             else if now > expires then (None, ls_removeItem prefixedKey s)
             else (Some v, s))"

text \<open>\<open>clearExpired\<close> collects the keys first and removes them afterwards.\<close>

definition to_remove :: "svc \<Rightarrow> int \<Rightarrow> 'v store \<Rightarrow> string \<Rightarrow> bool" where
  "to_remove c now s key =
     (own_key c key \<and>
      (case ls_getItem s key of
         Some Garbage \<Rightarrow> True
       | Some (Item v expires ts) \<Rightarrow> expires \<noteq> 0 \<and> now > expires
       | _ \<Rightarrow> False))"

definition clearExpired :: "svc \<Rightarrow> int \<Rightarrow> 'v store \<Rightarrow> 'v store" where
  "clearExpired c now s = fold ls_removeItem (filter (to_remove c now s) (map fst s)) s"

declare cleanup_scan.simps [simp del]

section \<open>The disambiguation policy in the specification's words\<close>

text \<open>
  The hit of the specification's data model: a type, an integer year and a venue path.
  \<open>spec_scan\<close> is the scan of the specification, step 3 of the candidate resolver:
  informal hits are skipped; a hit is accepted as a candidate when its year is within one
  of the target year and differs from the year of the previously accepted candidate; an
  accepted hit of the year after the target year is adopted and the scan goes on, one of
  the target year is adopted and the scan stops, and an earlier one is adopted only if
  no candidate has been adopted yet. Without any adopted hit the result is the empty path.
\<close>

record spec_hit =
  sh_type :: string
  sh_year :: int
  sh_path :: string

fun spec_scan :: "int \<Rightarrow> spec_hit list \<Rightarrow> string option \<Rightarrow> int option \<Rightarrow> string option" where
  "spec_scan t [] adopted prev = adopted"
| "spec_scan t (h # hs) adopted prev =
     (if sh_type h = ''Informal Publications'' then spec_scan t hs adopted prev
      else if \<bar>t - sh_year h\<bar> \<le> 1 \<and> prev \<noteq> Some (sh_year h) then
        (if sh_year h = t + 1 then spec_scan t hs (Some (sh_path h)) (Some (sh_year h))
         else if sh_year h = t then Some (sh_path h)
         else (case adopted of
                 None \<Rightarrow> spec_scan t hs (Some (sh_path h)) (Some (sh_year h))
               | Some p \<Rightarrow> spec_scan t hs adopted (Some (sh_year h))))
      else spec_scan t hs adopted prev)"

definition path_or_empty :: "string option \<Rightarrow> string" where
  "path_or_empty a = (case a of None \<Rightarrow> [] | Some p \<Rightarrow> p)"

definition spec_resolve :: "int \<Rightarrow> spec_hit list \<Rightarrow> string" where
  "spec_resolve t hs = path_or_empty (spec_scan t hs None None)"

text \<open>
  A hit of the response as a hit of the specification, and the hits for which the two
  agree: the fields that \<open>findBestMatch\<close> reads are present, the year is a number other
  than 0 and the venue path is not empty (the code marks "no candidate yet" by the year 0
  and "nothing adopted yet" by the empty path).
\<close>

definition abs_hit :: "info \<Rightarrow> spec_hit" where
  "abs_hit i =
     \<lparr>sh_type = (case i_type i of JStr s \<Rightarrow> s | _ \<Rightarrow> []),
      sh_year = (case i_year i of JNum y \<Rightarrow> y | _ \<Rightarrow> 0),
      sh_path = (case i_url i of Some u \<Rightarrow> venue_path u | None \<Rightarrow> [])\<rparr>"

definition wf_info :: "info \<Rightarrow> bool" where
  "wf_info i =
     (case i_type i of
        JStr ty \<Rightarrow>
          if ty = ''Informal Publications'' then True
          else (case first_author (i_authors i) of Inl _ \<Rightarrow> False | Inr _ \<Rightarrow>
                 (case i_year i of JNum y \<Rightarrow> y \<noteq> 0 \<and>
                    (case i_url i of Some u \<Rightarrow> venue_path u \<noteq> [] | None \<Rightarrow> False)
                  | _ \<Rightarrow> False))
      | _ \<Rightarrow> False)"

definition year_mark :: "int option \<Rightarrow> jsval" where
  "year_mark prev = (case prev of None \<Rightarrow> JNum 0 | Some y \<Rightarrow> JNum y)"

section \<open>Venue paths without a year tail\<close>

text \<open>
  A non-empty path whose last character is not a digit and which does not end in a digit
  followed by a dash: no end of such a path can be taken for part of a year suffix.
\<close>

definition no_year_tail :: "string \<Rightarrow> bool" where
  "no_year_tail p =
     (p \<noteq> [] \<and> \<not> is_digit (last p) \<and>
      \<not> (last p = CHR ''-'' \<and> butlast p \<noteq> [] \<and> is_digit (last (butlast p))))"

definition empty_table :: ccfdata where
  "empty_table = \<lparr>conferences = [], journals = []\<rparr>"

section \<open>Predicates on responses and values\<close>

definition outside_window :: "string \<Rightarrow> info option \<Rightarrow> bool" where
  "outside_window year h =
     (case h of None \<Rightarrow> True | Some i \<Rightarrow> \<not> in_window (str_to_number year) (i_year i))"

definition is_string :: "jsval \<Rightarrow> bool" where
  "is_string v = (case v of JStr s \<Rightarrow> True | _ \<Rightarrow> False)"

section \<open>Example inputs\<close>

definition mk_hit :: "string \<Rightarrow> int \<Rightarrow> string \<Rightarrow> info" where
  "mk_hit ty y u =
     \<lparr>i_type = JStr ty, i_authors = Some (AuthorArray [''Ada Lovelace'']),
      i_year = JNum y, i_url = Some u, i_number = JUndefined, i_venue = JUndefined\<rparr>"

text \<open>Three hits of the years 2019, 2020 and 2021, in that order.\<close>

definition p5_infos :: "info list" where
  "p5_infos =
     [mk_hit ''Conference and Workshop Papers'' 2019 ''https://dblp.org/rec/conf/a/p/a19'',
      mk_hit ''Conference and Workshop Papers'' 2020 ''https://dblp.org/rec/conf/b/p/b20'',
      mk_hit ''Conference and Workshop Papers'' 2021 ''https://dblp.org/rec/conf/c/p/c21'']"

definition p5_resp :: resp where
  "p5_resp = \<lparr>r_total = JNum 3, r_sent = JNum 3, r_hit = map Some p5_infos\<rparr>"

text \<open>The same hits with the years 2021, 2020 and 2019, in that order.\<close>

definition p5_infos_desc :: "info list" where
  "p5_infos_desc = rev p5_infos"

definition p5_resp_desc :: resp where
  "p5_resp_desc = \<lparr>r_total = JNum 3, r_sent = JNum 3, r_hit = map Some p5_infos_desc\<rparr>"

text \<open>
  The hits of the years 2019, 2020 and 2021 again, with the year of each hit as a string
  (\<open>"year": "2020"\<close>), in ascending and in descending order.
\<close>

definition mk_hit_str :: "string \<Rightarrow> string \<Rightarrow> string \<Rightarrow> info" where
  "mk_hit_str ty y u =
     \<lparr>i_type = JStr ty, i_authors = Some (AuthorArray [''Ada Lovelace'']),
      i_year = JStr y, i_url = Some u, i_number = JUndefined, i_venue = JUndefined\<rparr>"

definition p5_infos_str :: "info list" where
  "p5_infos_str =
     [mk_hit_str ''Conference and Workshop Papers'' ''2019'' ''https://dblp.org/rec/conf/a/p/a19'',
      mk_hit_str ''Conference and Workshop Papers'' ''2020'' ''https://dblp.org/rec/conf/b/p/b20'',
      mk_hit_str ''Conference and Workshop Papers'' ''2021'' ''https://dblp.org/rec/conf/c/p/c21'']"

definition p5_resp_str :: resp where
  "p5_resp_str = \<lparr>r_total = JNum 3, r_sent = JNum 3, r_hit = map Some p5_infos_str\<rparr>"

definition p5_resp_str_desc :: resp where
  "p5_resp_str_desc = \<lparr>r_total = JNum 3, r_sent = JNum 3, r_hit = map Some (rev p5_infos_str)\<rparr>"

text \<open>A hit of the year 0 followed by a hit far from the target year \<open>"1"\<close>.\<close>

definition year0_infos :: "info list" where
  "year0_infos =
     [mk_hit ''Conference and Workshop Papers'' 0 ''https://dblp.org/rec/conf/b/p/b20'',
      mk_hit ''Conference and Workshop Papers'' 5 ''https://dblp.org/rec/conf/c/p/c21'']"

definition year0_resp :: resp where
  "year0_resp = \<lparr>r_total = JNum 2, r_sent = JNum 2, r_hit = map Some year0_infos\<rparr>"

text \<open>A hit without an author list, followed by a hit of the target year.\<close>

definition authorless_resp :: resp where
  "authorless_resp =
     \<lparr>r_total = JNum 2, r_sent = JNum 2,
      r_hit =
        [Some \<lparr>i_type = JStr ''Editorship'', i_authors = None, i_year = JNum 2019,
               i_url = Some ''https://dblp.org/rec/conf/a/p/a19'', i_number = JUndefined,
               i_venue = JUndefined\<rparr>,
         Some (mk_hit ''Conference and Workshop Papers'' 2020 ''https://dblp.org/rec/conf/b/p/b20'')]\<rparr>"

text \<open>An informal publication without authors or URL, followed by a regular hit.\<close>

definition p6_resp :: resp where
  "p6_resp =
     \<lparr>r_total = JNum 2, r_sent = JNum 2,
      r_hit =
        [Some \<lparr>i_type = JStr ''Informal Publications'', i_authors = None, i_year = JNum 2020,
               i_url = None, i_number = JUndefined, i_venue = JUndefined\<rparr>,
         Some (mk_hit [] 2020 ''https://dblp.org/rec/conf/b/p/b20'')]\<rparr>"

text \<open>A single hit whose issue field names a member of \<open>Object.prototype\<close>.\<close>

definition constructor_resp :: resp where
  "constructor_resp =
     \<lparr>r_total = JNum 1, r_sent = JNum 1,
      r_hit =
        [Some \<lparr>i_type = JStr ''Journal Articles'', i_authors = Some (AuthorArray [''Ada Lovelace'']),
               i_year = JNum 2020, i_url = Some ''https://dblp.org/rec/journals/pacmpl/Lovelace20'',
               i_number = JStr ''constructor'', i_venue = JStr ''Proc. ACM Program. Lang.''\<rparr>]\<rparr>"

text \<open>A call of \<open>setItem\<close> during which the clock reads \<open>t\<close> and the storage accepts the write.\<close>

definition calm :: "int \<Rightarrow> env" where
  "calm t = \<lparr>t_cleanup = t, t_write = t, t_retry = t, w_first = Stored, w_retry = Stored\<rparr>"

text \<open>Two entries of the cache: at time 60 the first is fresh and the second has expired.\<close>

definition two_entries :: "string store" where
  "two_entries = [(''CCFrank4dblp_a'', Item ''x'' 100 0), (''CCFrank4dblp_b'', Item ''y'' 50 0)]"

text \<open>
  Filling the cache: the \<open>n\<close>-th call of \<open>setItem\<close> happens at time \<open>n\<close> and stores a
  key of its own (\<open>k\<close>, \<open>kk\<close>, \<open>kkk\<close>, ...).
\<close>

definition nth_key :: "nat \<Rightarrow> string" where
  "nth_key n = replicate (Suc n) CHR ''k''"

fun fill :: "svc \<Rightarrow> nat \<Rightarrow> 'v \<Rightarrow> 'v store \<Rightarrow> 'v store" where
  "fill c 0 v s = s"
| "fill c (Suc n) v s = snd (setItem c (calm (int (Suc n))) (nth_key n) v (fill c n v s))"

section \<open>Stores of fresh entries\<close>

text \<open>Every entry is an item of the cache with an expiry stamp that has not passed.\<close>

definition fresh :: "svc \<Rightarrow> int \<Rightarrow> 'v store \<Rightarrow> bool" where
  "fresh c now s =
     (\<forall>(k, x) \<in> set s. own_key c k \<and> (\<exists>v e t. x = Item v e t \<and> e \<noteq> 0 \<and> now \<le> e))"

text \<open>
  The entry that the \<open>i\<close>-th call of \<open>fill\<close> writes, the storage holding the entries
  of the calls \<open>a\<close>, ..., \<open>n - 1\<close> in that order, and the pair that \<open>_cleanup\<close> records
  for an entry.
\<close>

fun expiry_of :: "string \<times> 'v cell \<Rightarrow> string \<times> int" where
  "expiry_of (k, Item v e t) = (k, e)"
| "expiry_of (k, x) = (k, 0)"

definition stored :: "svc \<Rightarrow> 'v \<Rightarrow> nat \<Rightarrow> string \<times> 'v cell" where
  "stored c v i = (getPrefixedKey c (nth_key i), Item v (int (Suc i) + expiresAfter c) (int (Suc i)))"

definition span :: "svc \<Rightarrow> 'v \<Rightarrow> nat \<Rightarrow> nat \<Rightarrow> 'v store" where
  "span c v a n = map (stored c v) [a..<n]"

section \<open>Storage lemmas\<close>

lemma ls_getItem_setItem: "ls_getItem (ls_setItem k x s) k' = (if k' = k then Some x else ls_getItem s k')"
  by (simp add: ls_getItem_def ls_setItem_def update_conv')

lemma ls_getItem_removeItem:
  "ls_getItem (ls_removeItem k s) k' = (if k' = k then None else ls_getItem s k')"
  by (simp add: ls_getItem_def ls_removeItem_def delete_conv')

lemma ls_getItem_fold_remove:
  "ls_getItem (fold ls_removeItem ks s) k = (if k \<in> set ks then None else ls_getItem s k)"
  by (induction ks arbitrary: s) (auto simp: ls_getItem_removeItem)

lemma ls_getItem_in_keys: "ls_getItem s k = Some x \<Longrightarrow> k \<in> set (map fst s)"
  unfolding ls_getItem_def by (metis map_of_eq_None_iff option.distinct(1) set_map)

lemma cleanup_scan_Nil: "cleanup_scan c now i [] keys = ([], keys)"
  by (simp add: cleanup_scan.simps)

lemma cleanup_Nil: "cleanup c now [] = []"
  by (simp add: cleanup_def cleanup_scan_Nil)

section \<open>Multi-hit disambiguation follows the tie-break policy\<close>

lemma str_to_number_2020: "str_to_number ''2020'' = Some 2020"
  by (simp add: str_to_number_def is_digit_def dec_value_def digit_val_def)

lemma venue_path_b20: "venue_path ''https://dblp.org/rec/conf/b/p/b20'' = ''/conf/b/p''"
  by (simp add: venue_path_def substring_def indexOf_def lastIndexOf_def)

lemma venue_path_a19: "venue_path ''https://dblp.org/rec/conf/a/p/a19'' = ''/conf/a/p''"
  by (simp add: venue_path_def substring_def indexOf_def lastIndexOf_def)

lemma venue_path_c21: "venue_path ''https://dblp.org/rec/conf/c/p/c21'' = ''/conf/c/p''"
  by (simp add: venue_path_def substring_def indexOf_def lastIndexOf_def)

lemma scanned_prefix:
  assumes "to_number (r_sent r) = Some (int (length is))"
    and "take (length is) (r_hit r) = map Some is"
  shows "scanned r = map Some is"
proof -
  have "length (take (length is) (r_hit r)) = length (map Some is)"
    using assms(2) by simp
  then have len: "length is \<le> length (r_hit r)"
    by simp
  have "map (hit_info r) [0..<length is] = map ((!) (r_hit r)) [0..<length is]"
    using len by (simp add: hit_info_def)
  also have "\<dots> = take (length is) (map ((!) (r_hit r)) [0..<length (r_hit r)])"
    using len by (simp add: take_map)
  also have "\<dots> = map Some is"
    using assms(2) by (simp add: map_nth)
  finally show ?thesis
    using assms(1) by (simp add: scanned_def sent_bound_def)
qed

lemma scan_informal:
  "i_type i = JStr ''Informal Publications'' \<Longrightarrow>
   scan t (Some i # hs) d ylc = scan t hs d ylc"
  by simp

lemma scan_regular:
  assumes "ty \<noteq> ''Informal Publications''" and "i_type i = JStr ty"
    and "first_author (i_authors i) = Inr a"
    and "i_year i = JNum y" and "i_url i = Some u"
  shows "scan (Some t) (Some i # hs) d ylc =
     (if \<bar>t - y\<bar> \<le> 1 \<and> JNum y \<noteq> ylc then
        (if y = t + 1 then scan (Some t) hs (venue_path u) (JNum y)
         else if y = t then Inr (venue_path u)
         else if d = [] then scan (Some t) hs (venue_path u) (JNum y)
         else scan (Some t) hs d (JNum y))
      else scan (Some t) hs d ylc)"
  using assms by (simp add: in_window_def strict_eq_num_def)

lemma wf_info_cases:
  assumes "wf_info i"
  obtains (informal) "i_type i = JStr ''Informal Publications''"
  | (regular) ty a y u where "i_type i = JStr ty" "ty \<noteq> ''Informal Publications''"
      "first_author (i_authors i) = Inr a" "i_year i = JNum y" "y \<noteq> 0"
      "i_url i = Some u" "venue_path u \<noteq> []"
  using assms unfolding wf_info_def
  by (auto split: jsval.splits if_splits sum.splits option.splits)

lemma abs_hit_regular:
  "i_type i = JStr ty \<Longrightarrow> i_year i = JNum y \<Longrightarrow> i_url i = Some u \<Longrightarrow>
   abs_hit i = \<lparr>sh_type = ty, sh_year = y, sh_path = venue_path u\<rparr>"
  by (simp add: abs_hit_def)

lemma abs_hit_type: "i_type i = JStr ty \<Longrightarrow> sh_type (abs_hit i) = ty"
  by (simp add: abs_hit_def)

lemma year_mark_neq: "y \<noteq> 0 \<Longrightarrow> (JNum y \<noteq> year_mark prev) = (prev \<noteq> Some y)"
  by (cases prev) (auto simp: year_mark_def)

lemma path_or_empty_Some: "path_or_empty (Some p) = p"
  by (simp add: path_or_empty_def)

lemma scan_refines:
  assumes "list_all wf_info is" "adopted \<noteq> Some []"
  shows "scan (Some t) (map Some is) (path_or_empty adopted) (year_mark prev)
         = Inr (path_or_empty (spec_scan t (map abs_hit is) adopted prev))"
  using assms
proof (induction "is" arbitrary: adopted prev)
  case Nil
  then show ?case by simp
next
  case (Cons i "is")
  from Cons.prems have wf: "wf_info i" and rest: "list_all wf_info is" by simp_all
  note IH = Cons.IH [OF rest]
  from wf show ?case
  proof (cases rule: wf_info_cases)
    case informal
    then show ?thesis
      using IH [OF Cons.prems(2), of prev] by (simp add: abs_hit_type)
  next
    case (regular ty a y u)
    have step: "scan (Some t) (Some i # map Some is) (path_or_empty adopted) (year_mark prev) =
       (if \<bar>t - y\<bar> \<le> 1 \<and> prev \<noteq> Some y then
          (if y = t + 1 then scan (Some t) (map Some is) (venue_path u) (JNum y)
           else if y = t then Inr (venue_path u)
           else if adopted = None then scan (Some t) (map Some is) (venue_path u) (JNum y)
           else scan (Some t) (map Some is) (path_or_empty adopted) (JNum y))
        else scan (Some t) (map Some is) (path_or_empty adopted) (year_mark prev))"
      using regular Cons.prems(2)
      by (cases adopted)
        (simp_all add: scan_regular [OF regular(2,1,3,4,6)] year_mark_neq [OF regular(5)]
          path_or_empty_def del: scan.simps)
    have new: "scan (Some t) (map Some is) (venue_path u) (JNum y) =
        Inr (path_or_empty (spec_scan t (map abs_hit is) (Some (venue_path u)) (Some y)))"
      using IH [of "Some (venue_path u)" "Some y"] regular(7)
      by (simp add: path_or_empty_def year_mark_def)
    have keep: "scan (Some t) (map Some is) (path_or_empty adopted) (JNum y) =
        Inr (path_or_empty (spec_scan t (map abs_hit is) adopted (Some y)))"
      using IH [OF Cons.prems(2), of "Some y"] by (simp add: year_mark_def)
    have same: "scan (Some t) (map Some is) (path_or_empty adopted) (year_mark prev) =
        Inr (path_or_empty (spec_scan t (map abs_hit is) adopted prev))"
      using IH [OF Cons.prems(2), of prev] .
    show ?thesis
      using regular(2) new keep same
      by (auto simp add: step abs_hit_regular [OF regular(1,4,6)] path_or_empty_Some
          simp del: scan.simps split: option.splits)
  qed
qed

text \<open>
  On number-typed years the scan follows the policy. For a target year that is a number
  and a response whose scanned hits \<open>resp.hit[0]\<close>, ..., \<open>resp.hit[sent - 1]\<close> are
  well formed (a string type; unless informal, a first author, a number-typed year other
  than 0, the initial value of \<open>year_last_check\<close>, and a URL with a non-empty venue
  path), \<open>findBestMatch\<close> returns what the tie-break policy of the specification yields
  on the same hits in the same order.
\<close>

lemma findBestMatch_policy_on_numbers:
  assumes "str_to_number year = Some t"
    and "to_number (r_sent r) = Some (int (length is))"
    and "take (length is) (r_hit r) = map Some is"
    and "list_all wf_info is"
  shows "findBestMatch r author year = Inr (spec_resolve t (map abs_hit is))"
proof -
  have "scan (Some t) (map Some is) (path_or_empty None) (year_mark None)
        = Inr (path_or_empty (spec_scan t (map abs_hit is) None None))"
    using assms(4) by (intro scan_refines) simp_all
  then show ?thesis
    using assms(1) scanned_prefix [OF assms(2,3)]
    by (simp add: findBestMatch_def spec_resolve_def path_or_empty_def year_mark_def)
qed

lemma findBestMatch_policy_on_numbers_example:
  "findBestMatch p5_resp ''Lovelace'' ''2020'' = Inr ''/conf/b/p'' \<and>
   findBestMatch p5_resp_desc ''Lovelace'' ''2020'' = Inr ''/conf/b/p'' \<and>
   venue_path ''https://dblp.org/rec/conf/b/p/b20'' = ''/conf/b/p''"
proof -
  note paths = venue_path_a19 venue_path_b20 venue_path_c21
  have sent: "to_number (r_sent p5_resp) = Some (int (length p5_infos))"
    by (simp add: p5_resp_def p5_infos_def)
  have hits: "take (length p5_infos) (r_hit p5_resp) = map Some p5_infos"
    by (simp add: p5_resp_def)
  have wf: "list_all wf_info p5_infos"
    by (simp add: p5_infos_def wf_info_def mk_hit_def first_author_def paths)
  have "findBestMatch p5_resp ''Lovelace'' ''2020'' = Inr (spec_resolve 2020 (map abs_hit p5_infos))"
    using findBestMatch_policy_on_numbers [OF str_to_number_2020 sent hits wf] .
  moreover have "spec_resolve 2020 (map abs_hit p5_infos) = ''/conf/b/p''"
    by (simp add: spec_resolve_def path_or_empty_def p5_infos_def abs_hit_def mk_hit_def paths)
  moreover
  have sent': "to_number (r_sent p5_resp_desc) = Some (int (length p5_infos_desc))"
    by (simp add: p5_resp_desc_def p5_infos_desc_def p5_infos_def)
  have hits': "take (length p5_infos_desc) (r_hit p5_resp_desc) = map Some p5_infos_desc"
    by (simp add: p5_resp_desc_def)
  have wf': "list_all wf_info p5_infos_desc"
    by (simp add: p5_infos_desc_def p5_infos_def wf_info_def mk_hit_def first_author_def paths)
  have "findBestMatch p5_resp_desc ''Lovelace'' ''2020'' =
      Inr (spec_resolve 2020 (map abs_hit p5_infos_desc))"
    using findBestMatch_policy_on_numbers [OF str_to_number_2020 sent' hits' wf'] .
  moreover have "spec_resolve 2020 (map abs_hit p5_infos_desc) = ''/conf/b/p''"
    by (simp add: spec_resolve_def path_or_empty_def p5_infos_desc_def p5_infos_def abs_hit_def
        mk_hit_def paths)
  ultimately show ?thesis
    by (simp add: venue_path_b20)
qed

lemma str_to_number_years:
  "str_to_number ''2019'' = Some 2019" "str_to_number ''2021'' = Some 2021"
  "str_to_number ''1'' = Some 1"
  by (simp_all add: str_to_number_def is_digit_def dec_value_def digit_val_def)

lemma scanned_str: "scanned p5_resp_str = map Some p5_infos_str"
  by (rule scanned_prefix) (simp_all add: p5_resp_str_def p5_infos_str_def)

lemma scanned_str_desc: "scanned p5_resp_str_desc = map Some (rev p5_infos_str)"
  by (rule scanned_prefix) (simp_all add: p5_resp_str_desc_def p5_infos_str_def)

lemma scanned_year0: "scanned year0_resp = map Some year0_infos"
  by (rule scanned_prefix) (simp_all add: year0_resp_def year0_infos_def)

lemma scanned_authorless: "scanned authorless_resp = r_hit authorless_resp"
  by (simp add: scanned_def sent_bound_def authorless_resp_def hit_info_def upt_conv_Cons
      eval_nat_numeral)

text \<open>
  C1 at failing inputs. The tests \<open>year_fuzzy === Number(year) + 1\<close> and
  \<open>year_fuzzy === Number(year)\<close> compare the year of the hit, as \<open>JSON.parse\<close> left it,
  with a number. When the response carries its years as strings, neither test holds for
  any hit: the first hit in the year window is adopted as if its year were earlier and no
  later hit replaces it, so for the URLs ending in \<open>/p/a19\<close>, \<open>/p/b20\<close>, \<open>/p/c21\<close> and
  the target year \<open>"2020"\<close> the path of the first URL in response order is returned, not
  the one of \<open>/p/b20\<close>. With number-typed years, a hit of the year 0 within the year
  window is never accepted, because \<open>year_last_check\<close> starts at 0, although no candidate
  precedes it; and a hit without an author list ends the scan by a \<open>TypeError\<close> before
  the hit of the target year behind it is reached.
\<close>

theorem findBestMatch_strict_equality_misses:
  "findBestMatch p5_resp_str ''Lovelace'' ''2020'' = Inr ''/conf/a/p'' \<and>
   findBestMatch p5_resp_str_desc ''Lovelace'' ''2020'' = Inr ''/conf/c/p'' \<and>
   venue_path ''https://dblp.org/rec/conf/b/p/b20'' = ''/conf/b/p'' \<and>
   findBestMatch year0_resp ''Lovelace'' ''1'' = Inr [] \<and>
   spec_resolve 1 (map abs_hit year0_infos) = ''/conf/b/p'' \<and>
   findBestMatch authorless_resp ''Lovelace'' ''2020'' = Inl TypeError"
proof -
  note paths = venue_path_a19 venue_path_b20 venue_path_c21
  note nums = str_to_number_2020 str_to_number_years
  have asc: "findBestMatch p5_resp_str ''Lovelace'' ''2020'' = Inr ''/conf/a/p''"
    unfolding findBestMatch_def scanned_str
    by (simp add: p5_infos_str_def mk_hit_str_def first_author_def in_window_def
        strict_eq_num_def nums paths)
  have desc: "findBestMatch p5_resp_str_desc ''Lovelace'' ''2020'' = Inr ''/conf/c/p''"
    unfolding findBestMatch_def scanned_str_desc
    by (simp add: p5_infos_str_def mk_hit_str_def first_author_def in_window_def
        strict_eq_num_def nums paths)
  have zero: "findBestMatch year0_resp ''Lovelace'' ''1'' = Inr []"
    unfolding findBestMatch_def scanned_year0
    by (simp add: year0_infos_def mk_hit_def first_author_def in_window_def nums)
  have policy: "spec_resolve 1 (map abs_hit year0_infos) = ''/conf/b/p''"
    by (simp add: spec_resolve_def path_or_empty_def year0_infos_def abs_hit_def mk_hit_def paths)
  have abort: "findBestMatch authorless_resp ''Lovelace'' ''2020'' = Inl TypeError"
    unfolding findBestMatch_def scanned_authorless
    by (simp add: authorless_resp_def first_author_def)
  show ?thesis
    by (simp add: asc desc zero policy abort venue_path_b20)
qed

section \<open>Informal publications are skipped\<close>

lemma scanned_two:
  assumes "r_hit r = h1 # h2 # rest" and "to_number (r_sent r) = Some n" and "2 \<le> n"
  shows "scanned r = h1 # h2 # map (hit_info r) [2..<nat n]"
proof -
  have "[0..<nat n] = 0 # 1 # [2..<nat n]"
    using assms(3) by (simp add: upt_conv_Cons numeral_2_eq_2)
  then show ?thesis
    using assms(1,2) by (simp add: scanned_def sent_bound_def hit_info_def)
qed

text \<open>
  C9. A hit of type \<open>Informal Publications\<close> is passed over before its authors, year
  or URL are read, whatever the loop variables are. So when the first hit is informal
  (whatever its year, the target year included) and the second hit is not (its type is
  \<open>""\<close>, say) and has the target year, the second hit's venue path is returned.
\<close>

theorem informal_hit_skipped:
  assumes "str_to_number year = Some t" and "t \<noteq> 0"
    and "r_hit r = Some h1 # Some h2 # rest"
    and "to_number (r_sent r) = Some n" and "2 \<le> n"
    and "i_type h1 = JStr ''Informal Publications''"
    and "i_type h2 \<noteq> JStr ''Informal Publications''" and "i_year h2 = JNum t"
    and "first_author (i_authors h2) = Inr a" and "i_url h2 = Some u"
  shows "scan (str_to_number year) (Some h1 # hs) d y = scan (str_to_number year) hs d y \<and>
         findBestMatch r author year = Inr (venue_path u)"
proof
  show "scan (str_to_number year) (Some h1 # hs) d y = scan (str_to_number year) hs d y"
    using assms(6) by simp
next
  have "scan (Some t) (Some h1 # Some h2 # map (hit_info r) [2..<nat n]) [] (JNum 0)
        = scan (Some t) (Some h2 # map (hit_info r) [2..<nat n]) [] (JNum 0)"
    using assms(6) by simp
  also have "\<dots> = Inr (venue_path u)"
    using assms(2,7,8,9,10) by (simp add: in_window_def strict_eq_num_def)
  finally show "findBestMatch r author year = Inr (venue_path u)"
    using assms(1) scanned_two [OF assms(3,4,5)] by (simp add: findBestMatch_def)
qed

theorem informal_hit_skipped_witness:
  "findBestMatch p6_resp ''Lovelace'' ''2020'' = Inr ''/conf/b/p''"
proof -
  define h1 where "h1 = \<lparr>i_type = JStr ''Informal Publications'', i_authors = None,
    i_year = JNum 2020, i_url = None, i_number = JUndefined, i_venue = JUndefined\<rparr>"
  define h2 where "h2 = mk_hit [] 2020 ''https://dblp.org/rec/conf/b/p/b20''"
  have hits: "r_hit p6_resp = Some h1 # Some h2 # []"
    by (simp add: p6_resp_def h1_def h2_def)
  have sent: "to_number (r_sent p6_resp) = Some 2"
    by (simp add: p6_resp_def)
  have "findBestMatch p6_resp ''Lovelace'' ''2020''
        = Inr (venue_path ''https://dblp.org/rec/conf/b/p/b20'')"
    by (rule informal_hit_skipped [OF str_to_number_2020 _ hits sent, THEN conjunct2])
      (simp_all add: h1_def h2_def mk_hit_def first_author_def)
  then show ?thesis
    by (simp add: venue_path_b20)
qed

section \<open>Abbreviation lookup: the prefix fallback\<close>

lemma first_prefix_find:
  "first_prefix a m =
     (case List.find (\<lambda>(key, val). startsWith key a \<and> length a < length key) m of
        None \<Rightarrow> None
      | Some (key, val) \<Rightarrow> Some val)"
proof (induction m)
  case Nil
  then show ?case by simp
next
  case (Cons kv m)
  obtain key val where kv: "kv = (key, val)" by (cases kv)
  have "startsWith key a \<Longrightarrow> (key \<noteq> a) = (length a < length key)"
    unfolding startsWith_def by (auto simp: prefix_def)
  then show ?case
    using Cons.IH by (auto simp: kv)
qed

text \<open>
  C5, as amended. For a non-empty abbreviation without an exact match in either mapping,
  \<open>getRankByAbbr\<close> returns the record under the first key of the conference mapping, in
  insertion order, that starts with the upper-cased abbreviation and is strictly longer,
  and nothing when the conference mapping has no such key. Keys of the journal mapping
  take part in the exact match only.
\<close>

theorem getRankByAbbr_prefix_fallback:
  assumes "abbr \<noteq> []"
    and "map_of (conferences d) (toUpperCase abbr) = None"
    and "map_of (journals d) (toUpperCase abbr) = None"
  shows "getRankByAbbr d abbr =
     (case List.find (\<lambda>(key, val). startsWith key (toUpperCase abbr) \<and>
                                  length (toUpperCase abbr) < length key) (conferences d) of
        None \<Rightarrow> None
      | Some (key, val) \<Rightarrow> Some val)"
  using assms by (simp add: getRankByAbbr_def first_prefix_find)

lemma ccfData_tables:
  "conferences ccfData =
     [(''PPOPP'', \<lparr>e_rank = ''A'', e_abbr = ''PPOPP'',
         e_fullName = ''ACM SIGPLAN Symposium on Principles & Practice of Parallel Programming'',
         e_url = ''/conf/ppopp/ppopp'', e_type = ''conference''\<rparr>),
      (''/conf/ppopp/ppopp'', \<lparr>e_rank = ''A'', e_abbr = ''PPOPP'',
         e_fullName = ''ACM SIGPLAN Symposium on Principles & Practice of Parallel Programming'',
         e_url = ''/conf/ppopp/ppopp'', e_type = ''conference''\<rparr>),
      (''FAST'', \<lparr>e_rank = ''A'', e_abbr = ''FAST'',
         e_fullName = ''Conference on File and Storage Technologies'',
         e_url = ''/conf/fast/fast'', e_type = ''conference''\<rparr>),
      (''/conf/fast/fast'', \<lparr>e_rank = ''A'', e_abbr = ''FAST'',
         e_fullName = ''Conference on File and Storage Technologies'',
         e_url = ''/conf/fast/fast'', e_type = ''conference''\<rparr>)]"
  "journals ccfData =
     [(''TOCS'', \<lparr>e_rank = ''A'', e_abbr = ''TOCS'',
         e_fullName = ''ACM Transactions on Computer Systems'',
         e_url = ''/journals/tocs/tocs'', e_type = ''journal''\<rparr>),
      (''/journals/tocs/tocs'', \<lparr>e_rank = ''A'', e_abbr = ''TOCS'',
         e_fullName = ''ACM Transactions on Computer Systems'',
         e_url = ''/journals/tocs/tocs'', e_type = ''journal''\<rparr>),
      (''TOS'', \<lparr>e_rank = ''A'', e_abbr = ''TOS'',
         e_fullName = ''ACM Transactions on Storage'',
         e_url = ''/journals/tos/tos'', e_type = ''journal''\<rparr>),
      (''/journals/tos/tos'', \<lparr>e_rank = ''A'', e_abbr = ''TOS'',
         e_fullName = ''ACM Transactions on Storage'',
         e_url = ''/journals/tos/tos'', e_type = ''journal''\<rparr>)]"
  by (simp_all add: ccfData_def initData_def addEntry_def Let_def toUpperCase_def upper_char_def)

lemma upper_toc: "toUpperCase ''toc'' = ''TOC''"
  by (simp add: toUpperCase_def upper_char_def)

lemma upper_pp: "toUpperCase ''pp'' = ''PP''"
  by (simp add: toUpperCase_def upper_char_def)

theorem getRankByAbbr_prefix_fallback_witness:
  "getRankByAbbr ccfData ''pp'' =
     Some \<lparr>e_rank = ''A'', e_abbr = ''PPOPP'',
         e_fullName = ''ACM SIGPLAN Symposium on Principles & Practice of Parallel Programming'',
         e_url = ''/conf/ppopp/ppopp'', e_type = ''conference''\<rparr>"
proof -
  have a: "''pp'' \<noteq> []" by simp
  have b: "map_of (conferences ccfData) (toUpperCase ''pp'') = None"
    by (simp add: ccfData_tables upper_pp)
  have c: "map_of (journals ccfData) (toUpperCase ''pp'') = None"
    by (simp add: ccfData_tables upper_pp)
  show ?thesis
    using getRankByAbbr_prefix_fallback [OF a b c]
    by (simp add: ccfData_tables upper_pp startsWith_def)
qed

text \<open>
  C5 as stated fails: \<open>TOCS\<close> is a key of the table that starts with \<open>TOC\<close> and is
  longer, no key equals \<open>TOC\<close>, and the lookup of \<open>toc\<close> returns nothing, because
  \<open>TOCS\<close> is a journal.
\<close>

theorem getRankByAbbr_ignores_journal_prefix:
  "getRankByAbbr ccfData ''toc'' = None \<and>
   map_of (conferences ccfData) (toUpperCase ''toc'') = None \<and>
   map_of (journals ccfData) (toUpperCase ''toc'') = None \<and>
   map_of (journals ccfData) ''TOCS'' =
     Some \<lparr>e_rank = ''A'', e_abbr = ''TOCS'',
         e_fullName = ''ACM Transactions on Computer Systems'',
         e_url = ''/journals/tocs/tocs'', e_type = ''journal''\<rparr> \<and>
   startsWith ''TOCS'' (toUpperCase ''toc'') \<and>
   length (toUpperCase ''toc'') < length ''TOCS''"
  by (simp add: getRankByAbbr_def ccfData_tables upper_toc startsWith_def)

section \<open>Venue-path lookup and the year suffix\<close>

lemma dash_not_digit: "\<not> is_digit CHR ''-''"
  by (simp add: is_digit_def)

lemma year_suffix_nonempty: "year_suffix s \<Longrightarrow> s \<noteq> []"
  by (auto simp: year_suffix_def Let_def)

text \<open>The shapes of a matching string.\<close>

lemma year_suffix_iff:
  "year_suffix s \<longleftrightarrow>
     (list_all is_digit s \<and> 1 \<le> length s \<and> length s \<le> 4) \<or>
     (\<exists>d1 d2. s = d1 @ CHR ''-'' # d2 \<and> list_all is_digit d1 \<and> 1 \<le> length d1 \<and> length d1 \<le> 4
         \<and> list_all is_digit d2 \<and> 1 \<le> length d2 \<and> length d2 \<le> 4)"
  (is "?L \<longleftrightarrow> ?A \<or> ?B")
proof
  assume L: ?L
  show "?A \<or> ?B"
  proof (cases "dropWhile is_digit s")
    case Nil
    then have "takeWhile is_digit s = s"
      by (metis append_Nil2 takeWhile_dropWhile_id)
    then have "list_all is_digit s"
      by (metis list_all_iff set_takeWhileD)
    moreover have "1 \<le> length s \<and> length s \<le> 4"
      using L unfolding year_suffix_def Let_def \<open>takeWhile is_digit s = s\<close> by simp
    ultimately show ?thesis by simp
  next
    case (Cons c d2)
    have "s = takeWhile is_digit s @ c # d2"
      using Cons by (metis takeWhile_dropWhile_id)
    moreover have "list_all is_digit (takeWhile is_digit s)"
      by (simp add: list_all_iff) (meson set_takeWhileD)
    ultimately have ?B
      using L Cons unfolding year_suffix_def Let_def by (intro exI [of _ "takeWhile is_digit s"] exI [of _ d2]) simp
    then show ?thesis ..
  qed
next
  assume "?A \<or> ?B"
  then show ?L
  proof
    assume A: ?A
    then have tw: "takeWhile is_digit s = s" and dw: "dropWhile is_digit s = []"
      by (simp_all add: list_all_iff)
    show ?L
      unfolding year_suffix_def Let_def tw dw using A by simp
  next
    assume ?B
    then obtain d1 d2 where s: "s = d1 @ CHR ''-'' # d2" and d1: "list_all is_digit d1"
      "1 \<le> length d1" "length d1 \<le> 4" and d2: "list_all is_digit d2" "1 \<le> length d2" "length d2 \<le> 4"
      by blast
    have tw: "takeWhile is_digit s = d1" and dw: "dropWhile is_digit s = CHR ''-'' # d2"
      using d1(1) by (simp_all add: s list_all_iff takeWhile_append2 dropWhile_append2 dash_not_digit)
    show ?L
      unfolding year_suffix_def Let_def tw dw using d1 d2 by simp
  qed
qed

lemma year_suffix_append_tail:
  assumes "S \<noteq> []" and "year_suffix (S @ Y)"
  shows "is_digit (last S) \<or>
         (last S = CHR ''-'' \<and> butlast S \<noteq> [] \<and> is_digit (last (butlast S)))"
proof -
  from assms(2) consider
    (digits) "list_all is_digit (S @ Y)"
  | (range) d1 d2 where "S @ Y = d1 @ CHR ''-'' # d2" "list_all is_digit d1" "d1 \<noteq> []"
      "list_all is_digit d2"
    unfolding year_suffix_iff by fastforce
  then show ?thesis
  proof cases
    case digits
    then show ?thesis
      using assms(1) by (simp add: list_all_iff)
  next
    case (range d1 d2)
    from range(1) obtain us where
      "(S = d1 @ us \<and> us @ Y = CHR ''-'' # d2) \<or> (S @ us = d1 \<and> Y = us @ CHR ''-'' # d2)"
      unfolding append_eq_append_conv2 by blast
    then show ?thesis
    proof
      assume a: "S = d1 @ us \<and> us @ Y = CHR ''-'' # d2"
      show ?thesis
      proof (cases us)
        case Nil
        with a range(2,3) show ?thesis by (simp add: list_all_iff)
      next
        case (Cons u us')
        with a have u: "u = CHR ''-''" and d2: "us' @ Y = d2" by simp_all
        show ?thesis
        proof (cases "us' = []")
          case True
          with a Cons u range(2,3) show ?thesis
            by (simp add: list_all_iff butlast_append)
        next
          case False
          then have "last S = last us'" using a Cons by simp
          moreover have "last us' \<in> set d2" using False d2 by auto
          ultimately show ?thesis using range(4) by (simp add: list_all_iff)
        qed
      qed
    next
      assume b: "S @ us = d1 \<and> Y = us @ CHR ''-'' # d2"
      then have "last S \<in> set d1" using assms(1) by auto
      then show ?thesis using range(2) by (simp add: list_all_iff)
    qed
  qed
qed

lemma no_year_tail_Cons:
  "no_year_tail (c # cs) \<Longrightarrow> cs = [] \<or> no_year_tail cs"
  by (cases cs rule: rev_cases) (auto simp: no_year_tail_def butlast_append split: if_splits)

lemma cleanUrl_keeps:
  assumes "cleanUrl Y = []"
  shows "P = [] \<or> no_year_tail P \<Longrightarrow> cleanUrl (P @ Y) = P"
proof (induction P)
  case Nil
  then show ?case using assms by simp
next
  case (Cons c cs)
  then have tail: "no_year_tail (c # cs)" by simp
  have "\<not> year_suffix ((c # cs) @ Y)"
    using year_suffix_append_tail [of "c # cs" Y] tail unfolding no_year_tail_def by blast
  moreover have "cleanUrl (cs @ Y) = cs"
    using Cons.IH no_year_tail_Cons [OF tail] by blast
  ultimately show ?case by simp
qed

lemma cleanUrl_year_suffix: "year_suffix Y \<Longrightarrow> cleanUrl Y = []"
  by (cases Y) (simp_all add: year_suffix_nonempty)

lemma cleanUrl_append_suffix:
  "no_year_tail P \<Longrightarrow> year_suffix Y \<Longrightarrow> cleanUrl (P @ Y) = P"
  by (simp add: cleanUrl_keeps cleanUrl_year_suffix)

lemma cleanUrl_plain: "no_year_tail P \<Longrightarrow> cleanUrl P = P"
  using cleanUrl_keeps [of "[]" P] by simp

lemma getRankByUrl_addEntry:
  assumes "cleanUrl u = P" and "u \<noteq> []"
    and "type = ''conference'' \<or> map_of (conferences d) P = None"
  shows "getRankByUrl (addEntry rank abbr fullName P type d) u =
     Some \<lparr>e_rank = rank, e_abbr = toUpperCase abbr, e_fullName = fullName, e_url = P,
           e_type = type\<rparr>"
  using assms by (auto simp: getRankByUrl_def addEntry_def Let_def update_conv')

text \<open>
  C2, as amended. \<open>addEntry\<close> stores the venue path as it is given; only lookups strip.
  For a record stored under a path \<open>P\<close> without a year tail (in the conference mapping,
  or in the journal mapping when the conference mapping has no key \<open>P\<close>) and every
  suffix \<open>Y\<close> matching the year-suffix pattern, \<open>getRankByUrl (P + Y)\<close> returns the
  same record as \<open>getRankByUrl P\<close>, and that is the stored record.
\<close>

theorem getRankByUrl_year_suffix_insensitive:
  assumes "no_year_tail P" and "year_suffix Y"
    and "type = ''conference'' \<or> map_of (conferences d) P = None"
  shows "getRankByUrl (addEntry rank abbr fullName P type d) (P @ Y) =
           getRankByUrl (addEntry rank abbr fullName P type d) P \<and>
         getRankByUrl (addEntry rank abbr fullName P type d) P =
           Some \<lparr>e_rank = rank, e_abbr = toUpperCase abbr, e_fullName = fullName, e_url = P,
                 e_type = type\<rparr>"
proof -
  have ne: "P \<noteq> []" using assms(1) by (simp add: no_year_tail_def)
  have "getRankByUrl (addEntry rank abbr fullName P type d) (P @ Y) =
     Some \<lparr>e_rank = rank, e_abbr = toUpperCase abbr, e_fullName = fullName, e_url = P,
           e_type = type\<rparr>"
    using ne by (intro getRankByUrl_addEntry cleanUrl_append_suffix assms) simp
  moreover have "getRankByUrl (addEntry rank abbr fullName P type d) P =
     Some \<lparr>e_rank = rank, e_abbr = toUpperCase abbr, e_fullName = fullName, e_url = P,
           e_type = type\<rparr>"
    using ne by (intro getRankByUrl_addEntry cleanUrl_plain assms)
  ultimately show ?thesis by simp
qed

theorem getRankByUrl_year_suffix_insensitive_witness:
  "getRankByUrl
     (addEntry ''A'' ''FAST'' ''Conference on File and Storage Technologies''
        ''/conf/fast/fast'' ''conference'' empty_table) ''/conf/fast/fast2019-2020'' =
   Some \<lparr>e_rank = ''A'', e_abbr = ''FAST'',
         e_fullName = ''Conference on File and Storage Technologies'',
         e_url = ''/conf/fast/fast'', e_type = ''conference''\<rparr>"
proof -
  have tail: "no_year_tail ''/conf/fast/fast''"
    by (simp add: no_year_tail_def is_digit_def)
  have suffix: "year_suffix ''2019-2020''"
    by (simp add: year_suffix_def is_digit_def)
  have kind: "''conference'' = ''conference'' \<or> map_of (conferences empty_table) ''/conf/fast/fast'' = None"
    by simp
  show ?thesis
    using getRankByUrl_year_suffix_insensitive [OF tail suffix kind,
        of "''A''" "''FAST''" "''Conference on File and Storage Technologies''"]
    by (simp add: toUpperCase_def upper_char_def)
qed

text \<open>
  C2 as stated fails: the key \<open>/conf/x/x2020\<close> is stored with its digits; the lookup of
  the path itself strips them and finds nothing, and the lookup of the path followed by
  \<open>2021\<close> strips the last four digits only and finds the record.
\<close>

theorem getRankByUrl_unstripped_key:
  "year_suffix ''2021'' \<and>
   map_of (conferences (addEntry ''A'' ''X'' ''X Conference'' ''/conf/x/x2020'' ''conference''
      empty_table)) ''/conf/x/x2020'' =
     Some \<lparr>e_rank = ''A'', e_abbr = ''X'', e_fullName = ''X Conference'',
           e_url = ''/conf/x/x2020'', e_type = ''conference''\<rparr> \<and>
   getRankByUrl (addEntry ''A'' ''X'' ''X Conference'' ''/conf/x/x2020'' ''conference''
      empty_table) (''/conf/x/x2020'' @ ''2021'') =
     Some \<lparr>e_rank = ''A'', e_abbr = ''X'', e_fullName = ''X Conference'',
           e_url = ''/conf/x/x2020'', e_type = ''conference''\<rparr> \<and>
   getRankByUrl (addEntry ''A'' ''X'' ''X Conference'' ''/conf/x/x2020'' ''conference''
      empty_table) ''/conf/x/x2020'' = None"
  by (simp add: getRankByUrl_def addEntry_def Let_def empty_table_def toUpperCase_def
      upper_char_def year_suffix_def is_digit_def)

section \<open>The abbreviation branch of the result dispatch\<close>

lemma dispatch_string_not_abbr:
  "branch_taken (dispatch d (JStr s) flag r) \<noteq> Some AbbrBranch"
  by (simp add: dispatch_def branch_taken_def split: propval.splits)

lemma dispatch_empty: "dispatch d (JStr []) flag r = Inr (NoBranch, None)"
  by (simp add: dispatch_def)

lemma exn_TypeError: "e = TypeError"
  by (cases e) simp

lemma scan_outside_window:
  "list_all (outside_window year) hs \<Longrightarrow>
   scan (str_to_number year) hs d y = Inr d \<or> scan (str_to_number year) hs d y = Inl TypeError"
proof (induction hs)
  case Nil
  then show ?case by simp
next
  case (Cons h hs)
  then show ?case
    by (cases h) (auto simp: outside_window_def split: sum.splits intro: exn_TypeError)
qed

lemma normalize_url_empty: "normalize_url d [] = []"
  by (simp add: normalize_url_def getRankByUrl_def)

text \<open>
  C10. Whenever the completion callback of \<open>fetchFromDblpApi\<close> reaches
  \<open>apiCache.setItem\<close>, the cached \<open>dblp_url\<close> is a string, the dispatch on the network
  path and the replay of the cached value by \<open>fetchFromCache\<close> agree, and neither takes
  the abbreviation branch. When the response is neither a no-hit nor a single-hit one and
  no scanned hit lies in the year window, the callback either raises (and is caught) or
  caches the empty path and takes no branch at all, and so does the replay: nothing is
  handed to \<open>site.appendRankInfo\<close>.
\<close>

theorem abbreviation_branch_unreachable:
  "(case fetchFromDblpApi d r author year of
      Cached c res \<Rightarrow>
        is_string (c_dblp_url c) \<and> res = fetchFromCache d c \<and>
        branch_taken res \<noteq> Some AbbrBranch \<and>
        branch_taken (fetchFromCache d c) \<noteq> Some AbbrBranch
    | _ \<Rightarrow> True) \<and>
   (r_total r \<noteq> JNum 0 \<and> r_total r \<noteq> JNum 1 \<and> list_all (outside_window year) (scanned r) \<longrightarrow>
      fetchFromDblpApi d r author year = Caught TypeError \<or>
      fetchFromDblpApi d r author year =
        Cached \<lparr>c_dblp_url = JStr [], c_resp = r, c_flag = JBool True\<rparr> (Inr (NoBranch, None)) \<and>
      fetchFromCache d \<lparr>c_dblp_url = JStr [], c_resp = r, c_flag = JBool True\<rparr> =
        Inr (NoBranch, None))"
proof (intro conjI impI)
  show "case fetchFromDblpApi d r author year of
      Cached c res \<Rightarrow>
        is_string (c_dblp_url c) \<and> res = fetchFromCache d c \<and>
        branch_taken res \<noteq> Some AbbrBranch \<and>
        branch_taken (fetchFromCache d c) \<noteq> Some AbbrBranch
    | _ \<Rightarrow> True"
    by (simp add: fetchFromDblpApi_def Let_def fetchFromCache_def is_string_def
        dispatch_string_not_abbr split: sum.splits)
next
  assume a: "r_total r \<noteq> JNum 0 \<and> r_total r \<noteq> JNum 1 \<and> list_all (outside_window year) (scanned r)"
  then have "findBestMatch r author year = Inr [] \<or> findBestMatch r author year = Inl TypeError"
    unfolding findBestMatch_def using scan_outside_window by blast
  then show "fetchFromDblpApi d r author year = Caught TypeError \<or>
      fetchFromDblpApi d r author year =
        Cached \<lparr>c_dblp_url = JStr [], c_resp = r, c_flag = JBool True\<rparr> (Inr (NoBranch, None)) \<and>
      fetchFromCache d \<lparr>c_dblp_url = JStr [], c_resp = r, c_flag = JBool True\<rparr> =
        Inr (NoBranch, None)"
    using a
    by (auto simp: fetchFromDblpApi_def Let_def normalize_url_empty dispatch_empty fetchFromCache_def)
qed

lemma str_to_number_2000: "str_to_number ''2000'' = Some 2000"
  by (simp add: str_to_number_def is_digit_def dec_value_def digit_val_def)

lemma scanned_p5: "scanned p5_resp = map Some p5_infos"
  by (simp add: scanned_def sent_bound_def p5_resp_def p5_infos_def hit_info_def upt_conv_Cons
       eval_nat_numeral)

theorem abbreviation_branch_unreachable_witness:
  "fetchFromDblpApi ccfData p5_resp ''Lovelace'' ''2000'' =
     Cached \<lparr>c_dblp_url = JStr [], c_resp = p5_resp, c_flag = JBool True\<rparr> (Inr (NoBranch, None)) \<and>
   fetchFromCache ccfData \<lparr>c_dblp_url = JStr [], c_resp = p5_resp, c_flag = JBool True\<rparr> =
     Inr (NoBranch, None)"
proof -
  have tot: "r_total p5_resp \<noteq> JNum 0 \<and> r_total p5_resp \<noteq> JNum 1"
    by (simp add: p5_resp_def)
  have out: "list_all (outside_window ''2000'') (scanned p5_resp)"
    by (simp add: scanned_p5 p5_infos_def mk_hit_def outside_window_def in_window_def
        str_to_number_2000)
  have run: "findBestMatch p5_resp ''Lovelace'' ''2000'' = Inr []"
    by (simp add: findBestMatch_def scanned_p5 p5_infos_def mk_hit_def in_window_def
        str_to_number_2000 first_author_def)
  have "fetchFromDblpApi ccfData p5_resp ''Lovelace'' ''2000'' \<noteq> Caught TypeError"
    using tot run by (simp add: fetchFromDblpApi_def Let_def)
  then show ?thesis
    using abbreviation_branch_unreachable [of ccfData p5_resp "''Lovelace''" "''2000''"] tot out
    by blast
qed

section \<open>The umbrella journal and its alias table\<close>

lemma scanned_constructor: "scanned constructor_resp = r_hit constructor_resp"
  by (simp add: scanned_def sent_bound_def constructor_resp_def hit_info_def)

lemma pacm_lookup_oopsla2: "pacm_lookup ''oopsla2'' = Some (PStr ''/conf/oopsla/oopsla'')"
  by (simp add: pacm_lookup_def PACM_PL_CONFERENCE_MAP_def)

lemma first_number_skips:
  "\<not> truthy (opt_number h) \<Longrightarrow> first_number (h # hs) = first_number hs"
  by simp

lemma first_number_none:
  "list_all (\<lambda>h. \<not> truthy (opt_number h)) hs \<Longrightarrow> first_number hs = []"
  by (induction hs) simp_all

lemma processPacmPlJournal_alias:
  assumes "scanned r = pre @ Some i # post"
    and "list_all (\<lambda>h. \<not> truthy (opt_number h)) pre"
    and "i_number i = JStr n" and "n \<noteq> []"
    and "map_of PACM_PL_CONFERENCE_MAP (toLowerCase n) = Some p"
  shows "processPacmPlJournal r = PStr p"
proof -
  have "first_number (pre @ Some i # post) = toLowerCase n"
    using assms(2,3,4) by (induction pre) (simp_all add: opt_number_def)
  then show ?thesis
    using assms(1,5) by (simp add: processPacmPlJournal_def pacm_lookup_def)
qed

lemma processPacmPlJournal_fallback:
  assumes "map_of PACM_PL_CONFERENCE_MAP (first_number (scanned r)) = None"
    and "first_number (scanned r) \<notin> set object_prototype_keys"
  shows "processPacmPlJournal r = PStr ''/journals/pacmpl/pacmpl''"
  using assms by (simp add: processPacmPlJournal_def pacm_lookup_def)

lemma processPacmPlJournal_no_issue:
  assumes "list_all (\<lambda>h. \<not> truthy (opt_number h)) (scanned r)"
  shows "processPacmPlJournal r = PStr ''/journals/pacmpl/pacmpl''"
  using first_number_none [OF assms]
  by (simp add: processPacmPlJournal_def pacm_lookup_def PACM_PL_CONFERENCE_MAP_def
      object_prototype_keys_def)

text \<open>
  C8 at a failing input. The alias table is an object literal read with
  \<open>PACM_PL_CONFERENCE_MAP[number]\<close>, so an issue value that is not a key of the table
  but names a member of \<open>Object.prototype\<close> yields that member instead of the umbrella
  path, and the lookup that follows raises \<open>TypeError\<close>.
\<close>

theorem processPacmPlJournal_inherited_member:
  "map_of PACM_PL_CONFERENCE_MAP ''constructor'' = None \<and>
   processPacmPlJournal constructor_resp = PInherited ''constructor'' \<and>
   processPacmPlJournal constructor_resp \<noteq> PStr ''/journals/pacmpl/pacmpl'' \<and>
   dispatch ccfData (JStr ''/journals/pacmpl/pacmpl'') (JBool True) constructor_resp = Inl TypeError"
proof -
  have a: "map_of PACM_PL_CONFERENCE_MAP ''constructor'' = None"
    by (simp add: PACM_PL_CONFERENCE_MAP_def)
  have "first_number (scanned constructor_resp) = ''constructor''"
    unfolding scanned_constructor
    by (simp add: constructor_resp_def opt_number_def toLowerCase_def lower_char_def)
  then have b: "processPacmPlJournal constructor_resp = PInherited ''constructor''"
    by (simp add: processPacmPlJournal_def pacm_lookup_def a object_prototype_keys_def)
  show ?thesis
    by (simp add: a b dispatch_def)
qed

section \<open>Time to live\<close>

text \<open>
  C4, as amended. When the write of \<open>setItem\<close> at time \<open>t\<close> is stored, \<open>getItem\<close> at
  time \<open>t'\<close> returns the value and leaves the storage alone as long as
  \<open>t' - t \<le> expiresAfter\<close> (24 hours for the exported cache), and returns \<open>null\<close> and
  removes the entry when \<open>t' - t > expiresAfter\<close>. At exactly \<open>t' - t = expiresAfter\<close>
  the entry is still returned.
\<close>

theorem getItem_within_ttl:
  assumes "w_first e = Stored" and "t_write e + expiresAfter c \<noteq> 0"
  shows "fst (setItem c e key v s) = True \<and>
         getItem c now key (snd (setItem c e key v s)) =
           (if now - t_write e \<le> expiresAfter c then (Some v, snd (setItem c e key v s))
            else (None, ls_removeItem (getPrefixedKey c key) (snd (setItem c e key v s))))"
proof -
  let ?pk = "getPrefixedKey c key"
  let ?item = "Item v (t_write e + expiresAfter c) (t_write e)"
  have set: "setItem c e key v s = (True, ls_setItem ?pk ?item (cleanup c (t_cleanup e) s))"
    using assms(1) by (simp add: setItem_def Let_def)
  have "ls_getItem (snd (setItem c e key v s)) ?pk = Some ?item"
    by (simp add: set ls_getItem_setItem)
  then have "getItem c now key (snd (setItem c e key v s)) =
      (if now > t_write e + expiresAfter c
       then (None, ls_removeItem ?pk (snd (setItem c e key v s)))
       else (Some v, snd (setItem c e key v s)))"
    using assms(2) by (simp add: getItem_def Let_def)
  moreover have "(now > t_write e + expiresAfter c) = (\<not> now - t_write e \<le> expiresAfter c)"
    by arith
  ultimately show ?thesis
    by (simp add: set)
qed

lemma setItem_calm_empty:
  "setItem apiCache (calm 1000) ''q'' ''v'' [] = (True, [(''CCFrank4dblp_q'', Item ''v'' 86401000 1000)])"
  by (simp add: setItem_def Let_def calm_def cleanup_Nil apiCache_def getPrefixedKey_def ls_setItem_def)

theorem getItem_within_ttl_witness:
  "getItem apiCache 86400999 ''q'' (snd (setItem apiCache (calm 1000) ''q'' ''v'' [])) =
     (Some ''v'', [(''CCFrank4dblp_q'', Item ''v'' 86401000 1000)]) \<and>
   getItem apiCache 86401001 ''q'' (snd (setItem apiCache (calm 1000) ''q'' ''v'' [])) = (None, [])"
proof -
  have a: "w_first (calm 1000) = Stored" by (simp add: calm_def)
  have b: "t_write (calm 1000) + expiresAfter apiCache \<noteq> 0" by (simp add: calm_def apiCache_def)
  note inst = getItem_within_ttl [OF a b, where key = "''q''" and v = "''v''" and s = "[]"]
  have "getItem apiCache 86400999 ''q'' (snd (setItem apiCache (calm 1000) ''q'' ''v'' [])) =
     (Some ''v'', [(''CCFrank4dblp_q'', Item ''v'' 86401000 1000)])"
    using inst [where now = 86400999] by (simp add: setItem_calm_empty) (simp add: calm_def apiCache_def)
  moreover have "getItem apiCache 86401001 ''q'' (snd (setItem apiCache (calm 1000) ''q'' ''v'' [])) = (None, [])"
    using inst [where now = 86401001]
    by (simp add: setItem_calm_empty) (simp add: calm_def apiCache_def getPrefixedKey_def ls_removeItem_def)
  ultimately show ?thesis by simp
qed

text \<open>
  C4 as stated fails at the boundary: an entry written at time 1000 is returned by a read
  at time 1000 + 86400000.
\<close>

theorem getItem_at_ttl_not_expired:
  "fst (setItem apiCache (calm 1000) ''q'' ''v'' []) = True \<and>
   86401000 - t_write (calm 1000) = expiresAfter apiCache \<and>
   getItem apiCache 86401000 ''q'' (snd (setItem apiCache (calm 1000) ''q'' ''v'' [])) =
     (Some ''v'', [(''CCFrank4dblp_q'', Item ''v'' 86401000 1000)])"
  by (simp add: setItem_calm_empty) (simp add: calm_def apiCache_def getItem_def getPrefixedKey_def ls_getItem_def)

section \<open>Expired entries after a read and after clearExpired\<close>

text \<open>
  C7, as amended. After \<open>clearExpired\<close>, run with the clock at \<open>now\<close>, no entry of the
  cache carries an expiry stamp earlier than \<open>now\<close>. A \<open>getItem\<close> that returns a value
  leaves the storage as it was and guarantees only that the entry it read has not expired.
\<close>

theorem no_expired_after_clearExpired:
  "(own_key c k \<and> ls_getItem (clearExpired c now s) k = Some (Item v ex ts) \<and> ex \<noteq> 0 \<longrightarrow> now \<le> ex) \<and>
   (getItem c now key s = (Some v', s') \<longrightarrow>
      s' = s \<and> (\<exists>ex' ts'. ls_getItem s (getPrefixedKey c key) = Some (Item v' ex' ts') \<and> now \<le> ex'))"
proof (intro conjI impI)
  assume a: "own_key c k \<and> ls_getItem (clearExpired c now s) k = Some (Item v ex ts) \<and> ex \<noteq> 0"
  then have kept: "k \<notin> set (filter (to_remove c now s) (map fst s))"
    and cell: "ls_getItem s k = Some (Item v ex ts)"
    by (auto simp: clearExpired_def ls_getItem_fold_remove split: if_splits)
  from cell have "k \<in> set (map fst s)" by (rule ls_getItem_in_keys)
  with kept have "\<not> to_remove c now s k" by simp
  with a cell show "now \<le> ex" by (simp add: to_remove_def)
next
  assume "getItem c now key s = (Some v', s')"
  then show "s' = s" 
    by (auto simp: getItem_def Let_def split: option.splits cell.splits if_splits)
next
  assume "getItem c now key s = (Some v', s')"
  then show "\<exists>ex' ts'. ls_getItem s (getPrefixedKey c key) = Some (Item v' ex' ts') \<and> now \<le> ex'"
    by (auto simp: getItem_def Let_def split: option.splits cell.splits if_splits)
qed

theorem no_expired_after_clearExpired_witness:
  "own_key apiCache ''CCFrank4dblp_a'' \<and>
   ls_getItem (clearExpired apiCache 60 two_entries) ''CCFrank4dblp_a'' = Some (Item ''x'' 100 0) \<and>
   ls_getItem (clearExpired apiCache 60 two_entries) ''CCFrank4dblp_b'' = None \<and>
   getItem apiCache 60 ''a'' two_entries = (Some ''x'', two_entries) \<and>
   (60::int) \<le> 100"
proof -
  have own: "own_key apiCache ''CCFrank4dblp_a''"
    by (simp add: own_key_def apiCache_def startsWith_def)
  have ce: "clearExpired apiCache 60 two_entries = [(''CCFrank4dblp_a'', Item ''x'' 100 0)]"
    by (simp add: clearExpired_def two_entries_def to_remove_def own_key_def apiCache_def
        startsWith_def ls_getItem_def ls_removeItem_def)
  have cell: "ls_getItem (clearExpired apiCache 60 two_entries) ''CCFrank4dblp_a'' = Some (Item ''x'' 100 0)"
    by (simp add: ce ls_getItem_def)
  have get: "getItem apiCache 60 ''a'' two_entries = (Some ''x'', two_entries)"
    by (simp add: getItem_def two_entries_def apiCache_def getPrefixedKey_def ls_getItem_def)
  have "(60::int) \<le> 100"
    using no_expired_after_clearExpired [where c = apiCache and k = "''CCFrank4dblp_a''"
        and now = 60 and s = two_entries and v = "''x''" and ex = 100 and ts = 0] own cell
    by simp
  with own cell get show ?thesis
    by (simp add: ce ls_getItem_def)
qed

text \<open>
  C7 as stated fails for \<open>getItem\<close>: the read of a fresh entry succeeds and an expired
  entry under another key of the cache is still in the storage afterwards.
\<close>

theorem expired_entry_survives_get:
  "getItem apiCache 60 ''a'' two_entries = (Some ''x'', two_entries) \<and>
   ls_getItem two_entries ''CCFrank4dblp_b'' = Some (Item ''y'' 50 0) \<and>
   own_key apiCache ''CCFrank4dblp_b'' \<and> (50::int) < 60"
  by (simp add: getItem_def two_entries_def apiCache_def getPrefixedKey_def ls_getItem_def
      own_key_def startsWith_def)

section \<open>Recovery from an exceeded quota\<close>

lemma own_key_prefixed: "own_key c k \<Longrightarrow> ls_getItem (clearAll c s) k = None"
proof (cases "k \<in> set (map fst s)")
  case True
  assume "own_key c k"
  with True show ?thesis
    by (simp add: clearAll_def ls_getItem_fold_remove)
next
  case False
  then have "ls_getItem s k = None"
    by (simp add: ls_getItem_def map_of_eq_None_iff)
  then show ?thesis
    by (simp add: clearAll_def ls_getItem_fold_remove)
qed

lemma clearAll_foreign: "\<not> own_key c k \<Longrightarrow> ls_getItem (clearAll c s) k = ls_getItem s k"
  by (simp add: clearAll_def ls_getItem_fold_remove)

text \<open>
  C6. When the first write signals an exceeded quota, every other entry of the cache is
  gone afterwards. If the retry is stored, \<open>setItem\<close> returns \<open>true\<close> and the entry is
  in the storage with the expiry of the retry; if the retry fails as well, \<open>setItem\<close>
  returns \<open>false\<close> and leaves the cleared storage. There is one retry and no exception
  leaves \<open>setItem\<close>.
\<close>

theorem setItem_quota_recovery:
  assumes "w_first e = QuotaExceeded"
  shows "(own_key c k \<and> k \<noteq> getPrefixedKey c key \<longrightarrow> ls_getItem (snd (setItem c e key v s)) k = None) \<and>
         (w_retry e = Stored \<longrightarrow>
            fst (setItem c e key v s) = True \<and>
            ls_getItem (snd (setItem c e key v s)) (getPrefixedKey c key) =
              Some (Item v (t_retry e + expiresAfter c) (t_retry e))) \<and>
         (w_retry e \<noteq> Stored \<longrightarrow>
            fst (setItem c e key v s) = False \<and>
            snd (setItem c e key v s) = clearAll c (cleanup c (t_cleanup e) s))"
  using assms
  by (cases "w_retry e")
    (simp_all add: setItem_def Let_def ls_getItem_setItem own_key_prefixed)

theorem setItem_quota_recovery_witness:
  "setItem apiCache \<lparr>t_cleanup = 60, t_write = 60, t_retry = 61, w_first = QuotaExceeded, w_retry = Stored\<rparr>
      ''q'' ''v'' two_entries = (True, [(''CCFrank4dblp_q'', Item ''v'' 86400061 61)]) \<and>
   fst (setItem apiCache \<lparr>t_cleanup = 60, t_write = 60, t_retry = 61, w_first = QuotaExceeded,
      w_retry = QuotaExceeded\<rparr> ''q'' ''v'' two_entries) = False"
proof -
  let ?e1 = "\<lparr>t_cleanup = 60, t_write = 60, t_retry = 61, w_first = QuotaExceeded, w_retry = Stored\<rparr>"
  let ?e2 = "\<lparr>t_cleanup = 60, t_write = 60, t_retry = 61, w_first = QuotaExceeded, w_retry = QuotaExceeded\<rparr>"
  have q1: "w_first ?e1 = QuotaExceeded" and q2: "w_first ?e2 = QuotaExceeded" by simp_all
  have "fst (setItem apiCache ?e2 ''q'' ''v'' two_entries) = False"
    using setItem_quota_recovery [OF q2, where c = apiCache and key = "''q''" and v = "''v''"
        and s = two_entries and k = "[]"]
    by simp
  moreover have "setItem apiCache ?e1 ''q'' ''v'' two_entries
      = (True, [(''CCFrank4dblp_q'', Item ''v'' 86400061 61)])"
    by (simp add: setItem_def Let_def cleanup_def cleanup_scan.simps two_entries_def apiCache_def
        own_key_def startsWith_def ls_getItem_def ls_removeItem_def ls_setItem_def clearAll_def
        getPrefixedKey_def)
  ultimately show ?thesis by simp
qed

section \<open>Capacity\<close>

lemma update_absent: "k \<notin> fst ` set s \<Longrightarrow> AList.update k x s = s @ [(k, x)]"
  by (induction s) auto

lemma fresh_entry:
  assumes "fresh c now s" and "i < length s"
  obtains v e t where "own_key c (fst (s ! i))" "ls_getItem s (fst (s ! i)) = Some (Item v e t)"
    "e \<noteq> 0" "now \<le> e"
proof -
  have "fst (s ! i) \<in> fst ` set s"
    using assms(2) by (metis image_eqI nth_mem)
  then obtain x where x: "map_of s (fst (s ! i)) = Some x"
    by (metis map_of_eq_None_iff not_Some_eq)
  then have "(fst (s ! i), x) \<in> set s"
    by (rule map_of_SomeD)
  with assms(1) x that show ?thesis
    unfolding fresh_def ls_getItem_def by fastforce
qed

lemma cleanup_scan_fresh_keys:
  assumes "fresh c now s" and "distinct (map fst s)"
  shows "cleanup_scan c now i s keys = (s, keys @ map expiry_of (drop i s))"
proof (induction "length s - i" arbitrary: i keys)
  case 0
  then show ?case
    by (subst cleanup_scan.simps) simp
next
  case (Suc n)
  then have i: "i < length s" and n: "n = length s - Suc i" by simp_all
  from assms(1) i obtain v e t where
    f: "own_key c (fst (s ! i))" "ls_getItem s (fst (s ! i)) = Some (Item v e t)" "e \<noteq> 0" "now \<le> e"
    by (rule fresh_entry)
  have "map_of s (fst (s ! i)) = Some (snd (s ! i))"
    using assms(2) i by (metis map_of_is_SomeI nth_mem prod.collapse)
  with f(2) have cell: "s ! i = (fst (s ! i), Item v e t)"
    by (simp add: ls_getItem_def prod_eq_iff)
  have step: "cleanup_scan c now i s keys = cleanup_scan c now (Suc i) s (keys @ [(fst (s ! i), e)])"
    using i f by (subst cleanup_scan.simps) (simp add: Let_def)
  have "drop i s = s ! i # drop (Suc i) s"
    using i by (simp add: Cons_nth_drop_Suc)
  then have "map expiry_of (drop i s) = (fst (s ! i), e) # map expiry_of (drop (Suc i) s)"
    by (subst (asm) cell) simp
  then show ?case
    using Suc.hyps(1) [OF n, of "keys @ [(fst (s ! i), e)]"]
    by (simp add: step)
qed

lemma stored_key_inj: "fst (stored c v i) = fst (stored c v j) \<longleftrightarrow> i = j"
proof
  assume "fst (stored c v i) = fst (stored c v j)"
  then have "length (nth_key i) = length (nth_key j)"
    by (simp add: stored_def getPrefixedKey_def)
  then show "i = j" by (simp add: nth_key_def)
qed simp

lemma span_distinct: "distinct (map fst (span c v a n))"
  by (simp add: span_def distinct_map inj_on_def comp_def stored_key_inj)
  
lemma span_fresh:
  assumes "0 \<le> expiresAfter c" and "int n \<le> int a + expiresAfter c"
  shows "fresh c (int (Suc n)) (span c v a n)"
  using assms
  by (auto simp: fresh_def span_def stored_def own_key_def getPrefixedKey_def startsWith_def nth_key_def)

lemma span_expiries_sorted: "sorted (map snd (map expiry_of (span c v a n)))"
proof -
  have "map snd (map expiry_of (span c v a n)) = map (\<lambda>i. int (Suc i) + expiresAfter c) [a..<n]"
    by (simp add: span_def stored_def comp_def)
  moreover have "sorted (map (\<lambda>i. int (Suc i) + expiresAfter c) [a..<n])"
    by (rule sorted_map_mono) (simp_all add: mono_on_def)
  ultimately show ?thesis by simp
qed

lemma remove_first_of_span:
  "a < n \<Longrightarrow> ls_removeItem (fst (stored c v a)) (span c v a n) = span c v (Suc a) n"
proof -
  assume "a < n"
  then have "[a..<n] = a # [Suc a..<n]" by (simp add: upt_conv_Cons)
  moreover have "filter (\<lambda>i. fst (stored c v a) \<noteq> fst (stored c v i)) [Suc a..<n] = [Suc a..<n]"
    by (simp add: stored_key_inj)
  ultimately show ?thesis
    by (simp add: ls_removeItem_def AList.delete_eq span_def filter_map comp_def case_prod_unfold)
qed

lemma cleanup_scan_span:
  assumes "0 \<le> expiresAfter c" and "int n \<le> int a + expiresAfter c"
  shows "cleanup_scan c (int (Suc n)) 0 (span c v a n) [] =
     (span c v a n, map expiry_of (span c v a n))"
  using cleanup_scan_fresh_keys [OF span_fresh [OF assms, of v] span_distinct,
      where i = 0 and keys = "[]"]
  by simp

text \<open>Within the capacity nothing is evicted.\<close>

lemma cleanup_span_within:
  assumes "0 \<le> expiresAfter c" and "int n \<le> int a + expiresAfter c"
    and "n - a \<le> maxCacheSize c"
  shows "cleanup c (int (Suc n)) (span c v a n) = span c v a n"
proof -
  have "length (span c v a n) = n - a"
    by (simp add: span_def)
  then show ?thesis
    using assms(3) by (simp add: cleanup_def cleanup_scan_span [OF assms(1,2)] del: of_nat_Suc)
qed

text \<open>One entry past the capacity, the entry with the soonest expiry is evicted.\<close>

lemma cleanup_span_full:
  assumes "0 \<le> expiresAfter c" and "int n \<le> int a + expiresAfter c"
    and "n - a = Suc (maxCacheSize c)"
  shows "cleanup c (int (Suc n)) (span c v a n) = span c v (Suc a) n"
proof -
  let ?s = "span c v a n"
  have len: "length ?s = n - a"
    by (simp add: span_def)
  have sorted: "sort_key snd (map expiry_of ?s) = map expiry_of ?s"
    by (rule sort_key_id_if_sorted) (rule span_expiries_sorted)
  have "a < n" using assms(3) by simp
  then have "[a..<n] = a # [Suc a..<n]" by (simp add: upt_conv_Cons)
  then have "take 1 (map expiry_of ?s) = [expiry_of (stored c v a)]"
    by (simp add: span_def)
  then have "take (n - a - maxCacheSize c) (sort_key snd (map expiry_of ?s))
      = [(fst (stored c v a), int (Suc a) + expiresAfter c)]"
    using assms(3) by (simp add: sorted stored_def del: of_nat_Suc)
  then have "cleanup c (int (Suc n)) ?s = ls_removeItem (fst (stored c v a)) ?s"
    using assms(3)
    by (simp add: cleanup_def cleanup_scan_span [OF assms(1,2)] len Let_def del: of_nat_Suc)
  then show ?thesis
    using remove_first_of_span [OF \<open>a < n\<close>] by simp
qed

lemma fill_span:
  assumes "int (Suc (maxCacheSize c)) \<le> expiresAfter c"
  shows "fill c n v [] = span c v (n - Suc (maxCacheSize c)) n"
proof (induction n)
  case 0
  then show ?case by (simp add: span_def)
next
  case (Suc n)
  let ?a = "n - Suc (maxCacheSize c)"
  have ttl: "0 \<le> expiresAfter c" and near: "int n \<le> int ?a + expiresAfter c"
    using assms by linarith+
  have clean: "cleanup c (int (Suc n)) (span c v ?a n) = span c v (Suc n - Suc (maxCacheSize c)) n"
  proof (cases "n - ?a = Suc (maxCacheSize c)")
    case True
    then have "Suc n - Suc (maxCacheSize c) = Suc ?a" by arith
    then show ?thesis
      using cleanup_span_full [OF ttl near True, of v] by simp
  next
    case False
    then have le: "n - ?a \<le> maxCacheSize c" and "Suc n - Suc (maxCacheSize c) = ?a" by arith+
    then show ?thesis
      using cleanup_span_within [OF ttl near le(1), of v] by simp
  qed
  have absent: "fst (stored c v n) \<notin> fst ` set (span c v (Suc n - Suc (maxCacheSize c)) n)"
    by (auto simp: span_def stored_key_inj)
  have "fill c (Suc n) v [] =
      AList.update (fst (stored c v n)) (snd (stored c v n)) (span c v (Suc n - Suc (maxCacheSize c)) n)"
    by (simp add: Suc.IH clean setItem_def Let_def calm_def ls_setItem_def stored_def
        del: of_nat_Suc)
  also have "\<dots> = span c v (Suc n - Suc (maxCacheSize c)) n @
      [(fst (stored c v n), snd (stored c v n))]"
    using absent by (rule update_absent)
  also have "\<dots> = span c v (Suc n - Suc (maxCacheSize c)) (Suc n)"
    by (simp add: span_def)
  finally show ?case .
qed

text \<open>
  C3 at a failing input. \<open>_cleanup\<close> runs before the write, so the entry being written is
  never counted: from the empty storage, \<open>1000 + k\<close> calls of \<open>setItem\<close> (\<open>k \<ge> 1\<close>)
  with keys of their own, one per millisecond, leave 1001 entries in the storage of the
  exported cache, whose \<open>maxCacheSize\<close> is 1000: the 1001 written last.
\<close>

theorem fill_exceeds_capacity:
  "maxCacheSize apiCache = 1000 \<and>
   fill apiCache (1000 + Suc k) ''v'' [] = span apiCache ''v'' k (1000 + Suc k) \<and>
   length (fill apiCache (1000 + Suc k) ''v'' []) = 1001"
proof -
  have "fill apiCache (1000 + Suc k) ''v'' [] =
      span apiCache ''v'' (1000 + Suc k - Suc (maxCacheSize apiCache)) (1000 + Suc k)"
    by (rule fill_span) (simp add: apiCache_def)
  then show ?thesis
    by (simp add: span_def apiCache_def)
qed

text \<open>
  The first loop of \<open>_cleanup\<close> removes entries while it counts indices up, so the entry
  after a removed one is never looked at: of two expired entries the second stays.
\<close>

lemma cleanup_skips_after_removal:
  "cleanup apiCache 60 [(''CCFrank4dblp_a'', Item ''x'' 3 0), (''CCFrank4dblp_b'', Item ''y'' 3 0)]
     = [(''CCFrank4dblp_b'', Item ''y'' 3 0)]"
  by (simp add: cleanup_def cleanup_scan.simps apiCache_def own_key_def startsWith_def
      ls_getItem_def ls_removeItem_def)

end
